theory Spec2Isabelle
  imports Main "HOL-Library.Sublist" "HOL-Library.AList"
begin

section \<open>Strings\<close>

text \<open>
  A Python string is modelled by the bytes of its UTF-8 encoding: a character of the ASCII
  range is one byte below 128, any other character is a sequence of bytes from 128 up.
  Concatenation, comparison, the search for a substring and the split at an ASCII
  separator are the same on the bytes as on the characters. Case mapping and the
  whitespace test are modelled on the ASCII range: on a string that is \<open>ascii\<close> the
  functions \<open>lower\<close>, \<open>upper\<close>, \<open>strip\<close> and \<open>split_ws\<close> below are \<^verbatim>\<open>str.lower\<close>, \<^verbatim>\<open>str.upper\<close>,
  \<^verbatim>\<open>str.strip\<close> and \<^verbatim>\<open>str.split\<close>; on other strings Python also maps and strips characters
  beyond ASCII, and the theorems that rest on these functions assume their strings
  \<open>ascii\<close>.
\<close>

definition ascii :: "string \<Rightarrow> bool" where
  \<comment> \<open>every character of the string is in the ASCII range\<close>
  "ascii s = list_all (\<lambda>c. (of_char c :: nat) < 128) s"

definition is_space :: "char \<Rightarrow> bool" where
  \<comment> \<open>\<^verbatim>\<open>str.isspace\<close> of an ASCII character: TAB, LF, VT, FF, CR, FS, GS, RS, US and the blank\<close>
  "is_space c = (let n = (of_char c :: nat) in (9 \<le> n \<and> n \<le> 13) \<or> (28 \<le> n \<and> n \<le> 32))"

definition lower_char :: "char \<Rightarrow> char" where
  "lower_char c = (let n = (of_char c :: nat) in if 65 \<le> n \<and> n \<le> 90 then char_of (n + 32) else c)"

definition upper_char :: "char \<Rightarrow> char" where
  "upper_char c = (let n = (of_char c :: nat) in if 97 \<le> n \<and> n \<le> 122 then char_of (n - 32) else c)"

definition lower :: "string \<Rightarrow> string" where
  \<comment> \<open>\<^verbatim>\<open>s.lower()\<close> of an ASCII string\<close>
  "lower s = map lower_char s"

definition upper :: "string \<Rightarrow> string" where
  \<comment> \<open>\<^verbatim>\<open>s.upper()\<close> of an ASCII string\<close>
  "upper s = map upper_char s"

fun startswith :: "string \<Rightarrow> string \<Rightarrow> bool" where
  \<comment> \<open>\<^verbatim>\<open>s.startswith(p)\<close>\<close>
  "startswith s [] = True"
| "startswith [] (p # ps) = False"
| "startswith (c # cs) (p # ps) = (c = p \<and> startswith cs ps)"

fun contains :: "string \<Rightarrow> string \<Rightarrow> bool" where
  \<comment> \<open>\<^verbatim>\<open>sub in s\<close> on strings\<close>
  "contains [] sub = (sub = [])"
| "contains (c # cs) sub = (startswith (c # cs) sub \<or> contains cs sub)"

fun split_on :: "char \<Rightarrow> string \<Rightarrow> string list" where
  \<comment> \<open>\<^verbatim>\<open>s.split(sep)\<close> for a one-character separator\<close>
  "split_on sep [] = [[]]"
| "split_on sep (c # cs) =
     (if c = sep then [] # split_on sep cs
      else (case split_on sep cs of [] \<Rightarrow> [[c]] | w # ws \<Rightarrow> (c # w) # ws))"

fun split_ws_from :: "string \<Rightarrow> string \<Rightarrow> string list" where
  "split_ws_from cur [] = (if cur = [] then [] else [cur])"
| "split_ws_from cur (c # cs) =
     (if is_space c then (if cur = [] then split_ws_from [] cs else cur # split_ws_from [] cs)
      else split_ws_from (cur @ [c]) cs)"

definition split_ws :: "string \<Rightarrow> string list" where
  \<comment> \<open>\<^verbatim>\<open>s.split()\<close> of an ASCII string: the maximal runs of non-whitespace characters\<close>
  "split_ws s = split_ws_from [] s"

definition strip :: "string \<Rightarrow> string" where
  \<comment> \<open>\<^verbatim>\<open>s.strip()\<close> of an ASCII string\<close>
  "strip s = rev (dropWhile is_space (rev (dropWhile is_space s)))"

fun join :: "string \<Rightarrow> string list \<Rightarrow> string" where
  \<comment> \<open>\<^verbatim>\<open>sep.join(xs)\<close>\<close>
  "join sep [] = []"
| "join sep [x] = x"
| "join sep (x # y # ys) = x @ sep @ join sep (y # ys)"

section \<open>Paths and the file system\<close>

text \<open>
  A \<^verbatim>\<open>pathlib.Path\<close> of the program is always absolute (\<^verbatim>\<open>repo_path\<close> is resolved,
  \<^verbatim>\<open>Path.home()\<close> is absolute); it is modelled by its list of segments below the root.
  Where the right operand of \<^verbatim>\<open>/\<close> is the name of a file or directory, or a literal name,
  it is one segment and the join appends it; where it is a string of the user or of the
  configuration, the join is \<open>path_join\<close> below.
\<close>

type_synonym path = "string list"

definition path_name :: "path \<Rightarrow> string" where
  \<comment> \<open>\<^verbatim>\<open>p.name\<close>: the last segment, empty for the root\<close>
  "path_name p = (if p = [] then [] else last p)"

definition path_parent :: "path \<Rightarrow> path" where
  \<comment> \<open>\<^verbatim>\<open>p.parent\<close>: the root is its own parent\<close>
  "path_parent p = butlast p"

definition segments :: "string \<Rightarrow> string list" where
  \<comment> \<open>the segments pathlib keeps of a string: empty segments and \<^verbatim>\<open>.\<close> are dropped\<close>
  "segments s = filter (\<lambda>seg. seg \<noteq> [] \<and> seg \<noteq> ''.'') (split_on CHR ''/'' s)"

definition path_join :: "path \<Rightarrow> string \<Rightarrow> path" where
  \<comment> \<open>\<^verbatim>\<open>p / s\<close>: an absolute right operand replaces the left one\<close>
  "path_join p s = (if startswith s ''/'' then segments s else p @ segments s)"

definition literal :: "string \<Rightarrow> bool" where
  \<comment> \<open>no segment of the string is \<^verbatim>\<open>..\<close>: pathlib keeps such a segment and the operating
      system resolves it, which the tree below does not model\<close>
  "literal s = (''..'' \<notin> set (segments s))"

fun rfind_dot :: "string \<Rightarrow> nat option" where
  \<comment> \<open>\<^verbatim>\<open>name.rfind('.')\<close>, \<open>None\<close> for -1\<close>
  "rfind_dot [] = None"
| "rfind_dot (c # cs) =
     (case rfind_dot cs of Some i \<Rightarrow> Some (Suc i)
      | None \<Rightarrow> if c = CHR ''.'' then Some 0 else None)"

definition stem :: "string \<Rightarrow> string" where
  \<comment> \<open>\<^verbatim>\<open>p.stem\<close> of a file name: the name without its last suffix; a leading dot or a
      trailing dot starts no suffix\<close>
  "stem name =
     (case rfind_dot name of
        None \<Rightarrow> name
      | Some i \<Rightarrow> if 0 < i \<and> Suc i < length name then take i name else name)"

datatype node = File string | Dir "(string \<times> node) list"

text \<open>
  A directory lists its entries in the order in which the operating system enumerates
  them; looking a name up finds its first entry.
\<close>

fun lookup :: "node \<Rightarrow> path \<Rightarrow> node option" where
  "lookup t [] = Some t"
| "lookup (File c) (n # p) = None"
| "lookup (Dir es) (n # p) = (case map_of es n of None \<Rightarrow> None | Some t \<Rightarrow> lookup t p)"

definition exists :: "node \<Rightarrow> path \<Rightarrow> bool" where
  \<comment> \<open>\<^verbatim>\<open>p.exists()\<close>\<close>
  "exists fs p = (lookup fs p \<noteq> None)"

definition is_dir :: "node \<Rightarrow> path \<Rightarrow> bool" where
  \<comment> \<open>\<^verbatim>\<open>p.is_dir()\<close>\<close>
  "is_dir fs p = (case lookup fs p of Some (Dir es) \<Rightarrow> True | _ \<Rightarrow> False)"

definition is_file :: "node \<Rightarrow> path \<Rightarrow> bool" where
  \<comment> \<open>\<^verbatim>\<open>p.is_file()\<close>\<close>
  "is_file fs p = (case lookup fs p of Some (File c) \<Rightarrow> True | _ \<Rightarrow> False)"

datatype error = NotADirectoryError | FileExistsError | FileNotFoundError

definition iterdir :: "node \<Rightarrow> path \<Rightarrow> error + path list" where
  \<comment> \<open>\<^verbatim>\<open>p.iterdir()\<close>: the children of a directory, in enumeration order\<close>
  "iterdir fs p =
     (case lookup fs p of
        None \<Rightarrow> Inl FileNotFoundError
      | Some (File c) \<Rightarrow> Inl NotADirectoryError
      | Some (Dir es) \<Rightarrow> Inr (map (\<lambda>e. p @ [fst e]) es))"

fun rglob_rel :: "node \<Rightarrow> path list" where
  \<comment> \<open>the relative paths \<^verbatim>\<open>rglob('*')\<close> yields below a node: the entries of the
      directory itself, then those of each subdirectory in turn\<close>
  "rglob_rel (File c) = []"
| "rglob_rel (Dir es) =
     map (\<lambda>e. [fst e]) es @ concat (map (\<lambda>e. map ((#) (fst e)) (rglob_rel (snd e))) es)"

definition rglob :: "node \<Rightarrow> path \<Rightarrow> path list" where
  \<comment> \<open>\<^verbatim>\<open>p.rglob('*')\<close>, as relative paths below \<open>p\<close>; nothing when \<open>p\<close> is absent\<close>
  "rglob fs p = (case lookup fs p of None \<Rightarrow> [] | Some t \<Rightarrow> rglob_rel t)"

section \<open>The manager and its configuration\<close>

text \<open>
  The JSON configuration: an absent key is \<open>None\<close> and takes the default the code
  passes to \<^verbatim>\<open>dict.get\<close>; the custom mappings are per widget, from a program
  directory name to the name of the directory to install into.
\<close>

record config =
  cfg_backup_existing :: "bool option"
  cfg_create_backup_dir :: "bool option"
  cfg_dry_run :: "bool option"
  cfg_custom_mappings :: "string \<rightharpoonup> (string \<rightharpoonup> string)"

definition get_flag :: "bool option \<Rightarrow> bool \<Rightarrow> bool" where
  \<comment> \<open>\<^verbatim>\<open>config.get(key, default)\<close>\<close>
  "get_flag v d = (case v of None \<Rightarrow> d | Some b \<Rightarrow> b)"

record rule =
  rule_message :: string
  rule_suggestion :: string

record compatibility =
  single_config_only :: "string \<rightharpoonup> rule"
  supports_multiple_configs :: "string \<rightharpoonup> rule"

record manager =
  repo_path :: path
  home :: path
  repo_list_file :: path
  config :: config
  program_compatibility :: compatibility

definition home_config :: "manager \<Rightarrow> path" where
  \<comment> \<open>\<^verbatim>\<open>Path.home() / ".config"\<close>\<close>
  "home_config m = home m @ [''.config'']"

section \<open>Configuration variant scorer\<close>

definition find_widget_configs :: "manager \<Rightarrow> node \<Rightarrow> string \<Rightarrow> error + path list" where
  "find_widget_configs m fs widget_name =
     (let widget_path = path_join (repo_path m) widget_name in
      if \<not> exists fs widget_path then Inr []
      else
        (case iterdir fs widget_path of
           Inl e \<Rightarrow> Inl e
         | Inr items \<Rightarrow>
             (let configs = filter (\<lambda>item. is_dir fs item \<and> path_name item \<noteq> ''default'') items;
                  default_path = widget_path @ [''default'']
              in Inr (if exists fs default_path then configs @ [default_path] else configs))))"

type_synonym environment = "(string \<times> string) list"

definition exact_matches :: "environment \<Rightarrow> string \<Rightarrow> int \<Rightarrow> int" where
  \<comment> \<open>the first inner loop of \<^verbatim>\<open>select_best_config\<close>\<close>
  "exact_matches env config_name score =
     fold (\<lambda>(env_type, env_value) s.
             if env_value \<noteq> [] \<and> contains config_name (lower env_value) then s + 2 else s)
          env score"

definition partial_matches :: "environment \<Rightarrow> string \<Rightarrow> int \<Rightarrow> int" where
  \<comment> \<open>the second inner loop of \<^verbatim>\<open>select_best_config\<close>\<close>
  "partial_matches env config_name score =
     fold (\<lambda>(env_type, env_value) s.
             if env_value \<noteq> [] \<and> list_ex (\<lambda>part. contains config_name part) (split_ws (lower env_value))
             then s + 1 else s)
          env score"

definition config_score :: "environment \<Rightarrow> path \<Rightarrow> int" where
  \<comment> \<open>the value of \<^verbatim>\<open>score\<close> at the comparison with \<^verbatim>\<open>best_score\<close>\<close>
  "config_score env config_path =
     (let config_name = lower (path_name config_path)
      in partial_matches env config_name (exact_matches env config_name 0))"

definition select_step :: "environment \<Rightarrow> path \<Rightarrow> path option \<times> int \<Rightarrow> path option \<times> int" where
  \<comment> \<open>one iteration of the loop over \<^verbatim>\<open>configs\<close>, on \<^verbatim>\<open>(best_config, best_score)\<close>\<close>
  "select_step env config_path best =
     (if path_name config_path = ''default'' then best
      else let score = config_score env config_path
           in if score > snd best then (Some config_path, score) else best)"

definition select_best_config :: "manager \<Rightarrow> node \<Rightarrow> string \<Rightarrow> environment \<Rightarrow> error + path option" where
  "select_best_config m fs widget_name env =
     (case find_widget_configs m fs widget_name of
        Inl e \<Rightarrow> Inl e
      | Inr configs \<Rightarrow>
          if configs = [] then Inr None
          else
            (case fst (fold (select_step env) configs (None, 0)) of
               Some best_config \<Rightarrow> Inr (Some best_config)
             | None \<Rightarrow>
                 (let default_path = path_join (repo_path m) widget_name @ [''default'']
                  in if exists fs default_path then Inr (Some default_path) else Inr None)))"

subsection \<open>The selector as the specification words it\<close>

definition ci_substring :: "string \<Rightarrow> string \<Rightarrow> bool" where
  \<comment> \<open>\<open>v\<close> occurs in \<open>name\<close>, letter case ignored\<close>
  "ci_substring v name = sublist (lower v) (lower name)"

definition spec_score :: "environment \<Rightarrow> string \<Rightarrow> int" where
  \<comment> \<open>2 for every value that is a substring of the name, and 1 more for every value one
      of whose whitespace-separated tokens is\<close>
  "spec_score fingerprint name =
     2 * int (length (filter (\<lambda>kv. ci_substring (snd kv) name) fingerprint))
     + int (length (filter (\<lambda>kv. \<exists>tok \<in> set (split_ws (snd kv)). ci_substring tok name) fingerprint))"

definition spec_variants :: "manager \<Rightarrow> node \<Rightarrow> string \<Rightarrow> path list" where
  \<comment> \<open>the variants of the widget other than \<^verbatim>\<open>default\<close>, in enumeration order\<close>
  "spec_variants m fs widget =
     (case find_widget_configs m fs widget of
        Inl e \<Rightarrow> []
      | Inr configs \<Rightarrow> filter (\<lambda>v. path_name v \<noteq> ''default'') configs)"

definition spec_default :: "manager \<Rightarrow> node \<Rightarrow> string \<Rightarrow> path option" where
  \<comment> \<open>the \<^verbatim>\<open>default\<close> variant when it exists\<close>
  "spec_default m fs widget =
     (let d = path_join (repo_path m) widget @ [''default'']
      in if exists fs d then Some d else None)"

definition spec_select :: "manager \<Rightarrow> node \<Rightarrow> string \<Rightarrow> environment \<Rightarrow> path option" where
  \<comment> \<open>the first variant of highest score when that score is above zero, else the default\<close>
  "spec_select m fs widget fingerprint =
     (let vs = spec_variants m fs widget;
          sc = (\<lambda>v. spec_score fingerprint (path_name v))
      in if vs = [] \<or> (\<forall>v \<in> set vs. sc v \<le> 0) then spec_default m fs widget
         else find (\<lambda>v. \<forall>u \<in> set vs. sc u \<le> sc v) vs)"

section \<open>File classifier and destination mapper\<close>

definition widget_mappings :: "manager \<Rightarrow> path \<Rightarrow> (string \<rightharpoonup> string)" where
  \<comment> \<open>\<^verbatim>\<open>self.config.get('custom_mappings', {}).get(widget_name, {})\<close> for the widget that
      owns the variant at \<open>config_path\<close>\<close>
  "widget_mappings m config_path =
     (let widget_name = path_name (path_parent config_path)
      in case cfg_custom_mappings (config m) widget_name of None \<Rightarrow> Map.empty | Some cm \<Rightarrow> cm)"

definition target_dir_of :: "manager \<Rightarrow> path \<Rightarrow> path \<Rightarrow> path" where
  \<comment> \<open>the body of the loop of \<^verbatim>\<open>get_config_files\<close>: the target directory of the item at
      \<open>relative_path\<close> below \<open>config_path\<close>\<close>
  "target_dir_of m config_path relative_path =
     (if length relative_path > 1 then
        (let program_name = hd relative_path;
             custom_mappings = widget_mappings m config_path
         in case custom_mappings program_name of
              Some mapped \<Rightarrow> path_join (home_config m) mapped
            | None \<Rightarrow> home_config m @ [program_name])
      else
        (let program_name = stem (path_name (config_path @ relative_path))
         in home_config m @ [program_name]))"

definition get_config_files :: "manager \<Rightarrow> node \<Rightarrow> path \<Rightarrow> (path \<times> path) list" where
  \<comment> \<open>the pairs (source file, target directory); the target directory is kept as a path,
      the code's \<^verbatim>\<open>str(target_dir)\<close> being read back with \<^verbatim>\<open>Path(target_dir)\<close>\<close>
  "get_config_files m fs config_path =
     map (\<lambda>rel. (config_path @ rel, target_dir_of m config_path rel))
       (filter (\<lambda>rel. is_file fs (config_path @ rel)
                      \<and> \<not> startswith (path_name (config_path @ rel)) ''.'')
          (rglob fs config_path))"

section \<open>Compatibility conflict detector\<close>

record warnings =
  single_config_warnings :: "string list"
  multiple_config_info :: "string list"

type_synonym program_files = "(string \<times> (path \<times> path) list) list"

fun add_program_file :: "program_files \<Rightarrow> string \<Rightarrow> path \<times> path \<Rightarrow> program_files" where
  \<comment> \<open>\<^verbatim>\<open>if name not in d: d[name] = []\<close>, then \<^verbatim>\<open>d[name].append(pair)\<close>, on a dictionary
      that keeps its keys in insertion order\<close>
  "add_program_file [] program_name pair = [(program_name, [pair])]"
| "add_program_file ((k, files) # rest) program_name pair =
     (if k = program_name then (k, files @ [pair]) # rest
      else (k, files) # add_program_file rest program_name pair)"

definition group_by_program :: "(path \<times> path) list \<Rightarrow> program_files \<Rightarrow> program_files" where
  "group_by_program config_files program_files =
     fold (\<lambda>(source_path, target_dir) d. add_program_file d (path_name target_dir) (source_path, target_dir))
       config_files program_files"

text \<open>
  The non-ASCII characters that open the message literals of the source file, as the
  bytes the file holds for them (UTF-8).
\<close>

definition warning_sign :: string where
  "warning_sign = map char_of [195, 162, 197, 161, 194, 160, 195, 175, 194, 184 :: nat]"

definition light_bulb :: string where
  "light_bulb = map char_of [195, 176, 197, 184, 226, 128, 153, 194, 161 :: nat]"

definition info_sign :: string where
  "info_sign = map char_of [195, 162, 226, 128, 158, 194, 185, 195, 175, 194, 184 :: nat]"

definition file_detail :: "path \<times> path \<Rightarrow> string" where
  "file_detail pair =
     (let source_path = fst pair;
          env_name = path_name (path_parent (path_parent source_path))
      in ''     - '' @ env_name @ '': '' @ path_name source_path)"

definition check_program :: "compatibility \<Rightarrow> string \<times> (path \<times> path) list \<Rightarrow> warnings \<Rightarrow> warnings" where
  \<comment> \<open>one iteration of the loop over \<^verbatim>\<open>program_files.items()\<close>\<close>
  "check_program pc item w =
     (let program_name = fst item; files = snd item in
      if length files > 1 then
        (case single_config_only pc program_name of
           Some warning_info \<Rightarrow>
             (let warning_msg = warning_sign @ ''  '' @ upper program_name @ '': '' @ rule_message warning_info;
                  suggestion_msg = ''   '' @ light_bulb @ '' Suggestion: '' @ rule_suggestion warning_info;
                  file_details = map file_detail files
              in w\<lparr>single_config_warnings :=
                     single_config_warnings w @ [warning_msg, suggestion_msg]
                     @ (if file_details \<noteq> [] then ''   Conflicting files:'' # file_details else [])\<rparr>)
         | None \<Rightarrow>
             (case supports_multiple_configs pc program_name of
                Some info_data \<Rightarrow>
                  (let info_msg = info_sign @ ''  '' @ upper program_name @ '': '' @ rule_message info_data;
                       suggestion_msg = ''   '' @ light_bulb @ '' Suggestion: '' @ rule_suggestion info_data
                   in w\<lparr>multiple_config_info := multiple_config_info w @ [info_msg, suggestion_msg]\<rparr>)
              | None \<Rightarrow> w))
      else w)"

definition report :: "compatibility \<Rightarrow> program_files \<Rightarrow> warnings" where
  \<comment> \<open>the loop over the groups, from the empty \<^verbatim>\<open>warnings\<close>\<close>
  "report pc program_files =
     fold (check_program pc) program_files \<lparr>single_config_warnings = [], multiple_config_info = []\<rparr>"

definition program_files_of ::
  "manager \<Rightarrow> node \<Rightarrow> (path \<times> path) list \<Rightarrow> string option \<Rightarrow> error + program_files" where
  \<comment> \<open>the dictionary \<^verbatim>\<open>program_files\<close> when the loop over its items starts; \<open>widget_name\<close> is
      \<open>None\<close> for the default, and the empty name is falsy as \<open>None\<close> is\<close>
  "program_files_of m fs config_files widget_name =
     (let program_files = group_by_program config_files [] in
      case widget_name of
        None \<Rightarrow> Inr program_files
      | Some w \<Rightarrow>
          if w = [] then Inr program_files
          else
            (case find_widget_configs m fs w of
               Inl e \<Rightarrow> Inl e
             | Inr all_configs \<Rightarrow>
                 (let all_program_files =
                        fold (\<lambda>config_path d. group_by_program (get_config_files m fs config_path) d)
                          all_configs []
                  in Inr (if length all_configs > 1 then all_program_files else program_files))))"

definition check_program_compatibility ::
  "manager \<Rightarrow> node \<Rightarrow> (path \<times> path) list \<Rightarrow> string option \<Rightarrow> error + warnings" where
  "check_program_compatibility m fs config_files widget_name =
     (case program_files_of m fs config_files widget_name of
        Inl e \<Rightarrow> Inl e
      | Inr program_files \<Rightarrow> Inr (report (program_compatibility m) program_files))"

definition program_warnings :: "compatibility \<Rightarrow> string \<times> (path \<times> path) list \<Rightarrow> string list" where
  \<comment> \<open>what one iteration of the loop appends to \<^verbatim>\<open>single_config_warnings\<close>\<close>
  "program_warnings pc item =
     single_config_warnings
       (check_program pc item \<lparr>single_config_warnings = [], multiple_config_info = []\<rparr>)"

definition program_info :: "compatibility \<Rightarrow> string \<times> (path \<times> path) list \<Rightarrow> string list" where
  \<comment> \<open>what one iteration of the loop appends to \<^verbatim>\<open>multiple_config_info\<close>\<close>
  "program_info pc item =
     multiple_config_info
       (check_program pc item \<lparr>single_config_warnings = [], multiple_config_info = []\<rparr>)"

section \<open>Installer\<close>

subsection \<open>File-system operations\<close>

definition read_file :: "node \<Rightarrow> path \<Rightarrow> string option" where
  \<comment> \<open>the content of the regular file at a path\<close>
  "read_file fs p = (case lookup fs p of Some (File c) \<Rightarrow> Some c | _ \<Rightarrow> None)"

fun chain :: "path \<Rightarrow> node" where
  \<comment> \<open>the fresh directories \<^verbatim>\<open>mkdir(parents=True)\<close> creates below a missing name\<close>
  "chain [] = Dir []"
| "chain (n # p) = Dir [(n, chain p)]"

fun mkdir :: "bool \<Rightarrow> node \<Rightarrow> path \<Rightarrow> error + node" where
  \<comment> \<open>\<^verbatim>\<open>p.mkdir(parents=parents, exist_ok=True)\<close>: an existing directory is left alone, an
      existing file raises, and so does a missing parent unless \<open>parents\<close> is set\<close>
  "mkdir parents t [] = (case t of Dir es \<Rightarrow> Inr t | File c \<Rightarrow> Inl FileExistsError)"
| "mkdir parents (File c) (n # p) = Inl NotADirectoryError"
| "mkdir parents (Dir es) (n # p) =
     (case map_of es n of
        None \<Rightarrow>
          if p = [] \<or> parents then Inr (Dir (AList.update n (chain p) es))
          else Inl FileNotFoundError
      | Some t \<Rightarrow>
          (case mkdir parents t p of
             Inl e \<Rightarrow> Inl e
           | Inr t' \<Rightarrow> Inr (Dir (AList.update n t' es))))"

fun put :: "node \<Rightarrow> path \<Rightarrow> node \<Rightarrow> node option" where
  \<comment> \<open>the tree with \<open>v\<close> at the path, when the parent of the path is a directory\<close>
  "put t [] v = Some v"
| "put (File c) (n # p) v = None"
| "put (Dir es) [n] v = Some (Dir (AList.update n v es))"
| "put (Dir es) (n # q # p) v =
     (case map_of es n of
        None \<Rightarrow> None
      | Some t \<Rightarrow>
          (case put t (q # p) v of
             None \<Rightarrow> None
           | Some t' \<Rightarrow> Some (Dir (AList.update n t' es))))"

definition copy2 :: "node \<Rightarrow> path \<Rightarrow> path \<Rightarrow> node option" where
  \<comment> \<open>\<^verbatim>\<open>shutil.copy2(src, dst)\<close>; \<open>None\<close> when it raises: the source is no regular file,
      the destination is the source itself, or cannot be written. A destination that is a
      directory receives the file under the source's name.\<close>
  "copy2 fs src dst =
     (case lookup fs src of
        Some (File c) \<Rightarrow>
          (let dst' = (if is_dir fs dst then dst @ [path_name src] else dst) in
           if dst' = src \<or> dst' = [] \<or> is_dir fs dst' \<or> \<not> is_dir fs (path_parent dst') then None
           else put fs dst' (File c))
      | _ \<Rightarrow> None)"

definition leaf :: "node \<Rightarrow> bool" where
  \<comment> \<open>a regular file or an empty directory: a node with nothing below it\<close>
  "leaf v = (case v of File c \<Rightarrow> True | Dir es \<Rightarrow> es = [])"

subsection \<open>Backup\<close>

definition digit_char :: "nat \<Rightarrow> char" where
  "digit_char d = char_of (48 + d)"

fun show_nat :: "nat \<Rightarrow> string" where
  \<comment> \<open>the decimal numeral of the f-string\<close>
  "show_nat n = (if n < 10 then [digit_char n] else show_nat (n div 10) @ [digit_char (n mod 10)])"

declare show_nat.simps [simp del]

text \<open>
  Facts about the tree that the termination of the backup loop rests on.
\<close>

lemma lookup_append: "lookup fs (p @ q) = (case lookup fs p of None \<Rightarrow> None | Some t \<Rightarrow> lookup t q)"
proof (induction p arbitrary: fs)
  case Nil
  then show ?case by simp
next
  case (Cons a p)
  show ?case
  proof (cases fs)
    case (File c)
    then show ?thesis by (cases q) auto
  next
    case (Dir es)
    then show ?thesis using Cons by (simp split: option.splits)
  qed
qed

lemma exists_child_names: "{nm. exists fs (p @ [nm])} \<subseteq> (case lookup fs p of Some (Dir es) \<Rightarrow> fst ` set es | _ \<Rightarrow> {})"
  by (auto simp: exists_def lookup_append split: option.splits node.splits dest!: map_of_SomeD intro: rev_image_eqI)

lemma finite_child_names: "finite {nm. exists fs (p @ [nm])}"
  by (rule finite_subset[OF exists_child_names]) (auto split: option.splits node.splits)

lemma digit_char_inj: "d < 10 \<Longrightarrow> e < 10 \<Longrightarrow> digit_char d = digit_char e \<Longrightarrow> d = e"
  by (simp add: digit_char_def char_of_eq_iff take_bit_nat_eq_self)

lemma show_nat_nonempty: "show_nat n \<noteq> []"
  by (subst show_nat.simps) simp

lemma show_nat_inj: "show_nat n = show_nat m \<Longrightarrow> n = m"
proof (induction n arbitrary: m rule: show_nat.induct)
  case (1 n)
  show ?case
  proof (cases "n < 10")
    case True
    then have sn: "show_nat n = [digit_char n]" by (subst show_nat.simps) simp
    show ?thesis
    proof (cases "m < 10")
      case mt: True
      then have "show_nat m = [digit_char m]" by (subst show_nat.simps) simp
      with sn 1(2) True mt show ?thesis by (simp add: digit_char_inj)
    next
      case False
      then have "show_nat m = show_nat (m div 10) @ [digit_char (m mod 10)]" by (subst show_nat.simps) simp
      with sn 1(2) show_nat_nonempty[of "m div 10"] show ?thesis by (cases "show_nat (m div 10)") auto
    qed
  next
    case False
    then have sn: "show_nat n = show_nat (n div 10) @ [digit_char (n mod 10)]" by (subst show_nat.simps) simp
    show ?thesis
    proof (cases "m < 10")
      case mt: True
      then have "show_nat m = [digit_char m]" by (subst show_nat.simps) simp
      with sn 1(2) show_nat_nonempty[of "n div 10"] show ?thesis by (cases "show_nat (n div 10)") auto
    next
      case mf: False
      then have "show_nat m = show_nat (m div 10) @ [digit_char (m mod 10)]" by (subst show_nat.simps) simp
      with sn 1(2) have a: "show_nat (n div 10) = show_nat (m div 10)" and b: "digit_char (n mod 10) = digit_char (m mod 10)" by auto
      from 1(1)[OF False a] have "n div 10 = m div 10" .
      moreover from b have "n mod 10 = m mod 10" by (intro digit_char_inj) auto
      ultimately show ?thesis by (metis div_mult_mod_eq)
    qed
  qed
qed

definition suffixed :: "string \<Rightarrow> nat \<Rightarrow> string" where
  \<comment> \<open>\<^verbatim>\<open>f"{name}.{counter}"\<close>\<close>
  "suffixed name counter = name @ ''.'' @ show_nat counter"

lemma suffixed_inj: "suffixed name k = suffixed name l \<Longrightarrow> k = l"
  by (simp add: suffixed_def show_nat_inj)

lemma finite_taken: "finite {k. exists fs (backup_dir @ [suffixed name k])}"
proof -
  have "inj (suffixed name)" by (auto simp: inj_on_def dest: suffixed_inj)
  then have "finite (suffixed name -` {nm. exists fs (backup_dir @ [nm])})"
    by (intro finite_vimageI finite_child_names)
  then show ?thesis by (simp add: vimage_def)
qed

text \<open>
  The \<^verbatim>\<open>while backup_path.exists()\<close> loop of \<^verbatim>\<open>backup_existing\<close>, on the variables
  \<^verbatim>\<open>backup_path\<close> and \<^verbatim>\<open>counter\<close>. It ends because a directory has finitely many entries
  and the candidate names are pairwise distinct.
\<close>

function next_backup_path :: "node \<Rightarrow> path \<Rightarrow> string \<Rightarrow> path \<Rightarrow> nat \<Rightarrow> path" where
  "next_backup_path fs backup_dir name backup_path counter =
     (if exists fs backup_path
      then next_backup_path fs backup_dir name (backup_dir @ [suffixed name counter]) (counter + 1)
      else backup_path)"
  by pat_completeness auto
termination
proof (relation "measure (\<lambda>(fs, backup_dir, name, backup_path, counter).
          2 * card {k. counter \<le> k \<and> exists fs (backup_dir @ [suffixed name k])}
          + (if exists fs backup_path then 1 else 0))")
  show "wf (measure (\<lambda>(fs, backup_dir, name, backup_path, counter).
          2 * card {k. counter \<le> k \<and> exists fs (backup_dir @ [suffixed name k])}
          + (if exists fs backup_path then 1 else 0)))" by simp
next
  fix fs :: node and backup_dir :: path and name :: string and backup_path :: path and counter :: nat
  assume ex: "exists fs backup_path"
  let ?E = "\<lambda>k. exists fs (backup_dir @ [suffixed name k])"
  have fin: "finite {k. counter \<le> k \<and> ?E k}"
    by (rule finite_subset[OF _ finite_taken[of fs backup_dir name]]) auto
  show "((fs, backup_dir, name, backup_dir @ [suffixed name counter], counter + 1),
         (fs, backup_dir, name, backup_path, counter)) \<in> measure (\<lambda>(fs, backup_dir, name, backup_path, counter).
          2 * card {k. counter \<le> k \<and> exists fs (backup_dir @ [suffixed name k])}
          + (if exists fs backup_path then 1 else 0))"
  proof (cases "?E counter")
    case True
    have "{k. counter \<le> k \<and> ?E k} = insert counter {k. counter + 1 \<le> k \<and> ?E k}"
      using True by (auto simp: Suc_le_eq le_less)
    moreover have "finite {k. counter + 1 \<le> k \<and> ?E k}"
      by (rule finite_subset[OF _ fin]) auto
    ultimately have "card {k. counter \<le> k \<and> ?E k} = Suc (card {k. counter + 1 \<le> k \<and> ?E k})"
      by simp
    with ex True show ?thesis by simp
  next
    case False
    have "{k. counter \<le> k \<and> ?E k} = {k. counter + 1 \<le> k \<and> ?E k}"
      using False by (auto simp: Suc_le_eq le_less)
    with ex False show ?thesis by simp
  qed
qed

declare next_backup_path.simps [simp del]

definition backup_existing :: "manager \<Rightarrow> node \<Rightarrow> path \<Rightarrow> error + bool \<times> node" where
  \<comment> \<open>the result and the file system afterwards; \<open>Inl\<close> is an exception that leaves the
      function (\<^verbatim>\<open>backup_dir.mkdir\<close> is outside the \<^verbatim>\<open>try\<close>)\<close>
  "backup_existing m fs target_path =
     (if \<not> exists fs target_path then Inr (True, fs)
      else if \<not> get_flag (cfg_backup_existing (config m)) True then Inr (True, fs)
      else
        (let backup_dir = home m @ [''.config_backup''] in
         case (if get_flag (cfg_create_backup_dir (config m)) True
               then mkdir False fs backup_dir else Inr fs) of
           Inl e \<Rightarrow> Inl e
         | Inr fs1 \<Rightarrow>
             (let backup_path =
                    next_backup_path fs1 backup_dir (path_name target_path)
                      (backup_dir @ [path_name target_path]) 1
              in case copy2 fs1 target_path backup_path of
                   Some fs2 \<Rightarrow> Inr (True, fs2)
                 | None \<Rightarrow> Inr (False, fs1))))"

subsection \<open>Installing one file, and the files of a widget\<close>

definition install_config :: "manager \<Rightarrow> node \<Rightarrow> path \<Rightarrow> path \<Rightarrow> error + bool \<times> node" where
  "install_config m fs source_path target_dir =
     (let target_path = target_dir @ [path_name source_path] in
      if get_flag (cfg_dry_run (config m)) False then Inr (True, fs)
      else
        (case mkdir True fs (path_parent target_path) of
           Inl e \<Rightarrow> Inl e
         | Inr fs1 \<Rightarrow>
             (case backup_existing m fs1 target_path of
                Inl e \<Rightarrow> Inl e
              | Inr (backed_up, fs2) \<Rightarrow>
                  if \<not> backed_up then Inr (False, fs2)
                  else
                    (case copy2 fs2 source_path target_path of
                       Some fs3 \<Rightarrow> Inr (True, fs3)
                     | None \<Rightarrow> Inr (False, fs2)))))"

fun install_files :: "manager \<Rightarrow> (path \<times> path) list \<Rightarrow> bool \<Rightarrow> node \<Rightarrow> error + bool \<times> node" where
  \<comment> \<open>the loop at the end of \<^verbatim>\<open>install_widget\<close>, on the variable \<^verbatim>\<open>success\<close>\<close>
  "install_files m [] success fs = Inr (success, fs)"
| "install_files m ((source_path, target_dir) # rest) success fs =
     (case install_config m fs source_path target_dir of
        Inl e \<Rightarrow> Inl e
      | Inr (ok, fs') \<Rightarrow> install_files m rest (if \<not> ok then False else success) fs')"

inductive attempts :: "manager \<Rightarrow> (path \<times> path) list \<Rightarrow> node \<Rightarrow> bool list \<Rightarrow> node \<Rightarrow> bool" where
  \<comment> \<open>every pair of the list is handed to \<^verbatim>\<open>install_config\<close> in turn, each on the file system
      the one before left, and each returns: the list of the results, and the final state\<close>
  attempts_Nil: "attempts m [] fs [] fs"
| attempts_Cons:
    "install_config m fs source_path target_dir = Inr (ok, fs1) \<Longrightarrow> attempts m rest fs1 oks fs2
     \<Longrightarrow> attempts m ((source_path, target_dir) # rest) fs (ok # oks) fs2"

definition install_widget ::
  "manager \<Rightarrow> node \<Rightarrow> string \<Rightarrow> environment \<Rightarrow> bool \<Rightarrow> error + bool \<times> node" where
  \<comment> \<open>with the environment given (its detection reads the process environment)\<close>
  "install_widget m fs widget_name env use_config_fallback =
     (case select_best_config m fs widget_name env of
        Inl e \<Rightarrow> Inl e
      | Inr selected \<Rightarrow>
          (case (case selected of
                   Some config_path \<Rightarrow> Some config_path
                 | None \<Rightarrow> if use_config_fallback then Some (home_config m) else None) of
             None \<Rightarrow> Inr (False, fs)
           | Some config_path \<Rightarrow>
               (let config_files = get_config_files m fs config_path in
                if config_files = [] then Inr (False, fs)
                else
                  (case check_program_compatibility m fs config_files (Some widget_name) of
                     Inl e \<Rightarrow> Inl e
                   | Inr compatibility_warnings \<Rightarrow> install_files m config_files True fs))))"

section \<open>Repository registry\<close>

record repo_info =
  repo_name :: string
  repo_url :: string
  repo_description :: string
  repo_tags :: "string list"
  line_number :: "nat option"

fun universal_newlines :: "string \<Rightarrow> string" where
  \<comment> \<open>reading in text mode: CR LF and a lone CR arrive as LF\<close>
  "universal_newlines [] = []"
| "universal_newlines (c # cs) =
     (if c = CHR 0x0D then
        (case cs of
           [] \<Rightarrow> [CHR 0x0A]
         | d # ds \<Rightarrow> if d = CHR 0x0A then CHR 0x0A # universal_newlines ds
                     else CHR 0x0A # universal_newlines cs)
      else c # universal_newlines cs)"

definition file_lines :: "string \<Rightarrow> string list" where
  \<comment> \<open>the lines that iterating over the open file yields, without their terminator
      (which \<^verbatim>\<open>line.strip()\<close> removes first thing)\<close>
  "file_lines content =
     (let pieces = split_on (CHR 0x0A) (universal_newlines content)
      in if last pieces = [] then butlast pieces else pieces)"

definition parse_repo_line :: "nat \<times> string \<Rightarrow> repo_info list" where
  \<comment> \<open>the body of the loop of \<^verbatim>\<open>load_repo_list\<close>: the entries one line appends\<close>
  "parse_repo_line numbered =
     (let line_num = fst numbered; line = strip (snd numbered) in
      if line \<noteq> [] \<and> \<not> startswith line ''#'' then
        (let parts = split_on CHR ''|'' line in
         if length parts \<ge> 2 then
           [\<lparr>repo_name = strip (parts ! 0),
             repo_url = strip (parts ! 1),
             repo_description = (if length parts > 2 then strip (parts ! 2) else []),
             repo_tags = (if length parts > 3 then split_on CHR '','' (strip (parts ! 3)) else []),
             line_number = Some line_num\<rparr>]
         else [])
      else [])"

definition load_repo_list :: "manager \<Rightarrow> node \<Rightarrow> repo_info list" where
  \<comment> \<open>a registry file that cannot be opened (a directory) is caught and gives no entry\<close>
  "load_repo_list m fs =
     (if exists fs (repo_list_file m) then
        (case read_file fs (repo_list_file m) of
           Some content \<Rightarrow> concat (map parse_repo_line (enumerate 1 (file_lines content)))
         | None \<Rightarrow> [])
      else [])"

definition registry_header :: string where
  "registry_header =
     ''# Compatible Dotfile Repositories'' @ [CHR 0x0A]
     @ ''# Format: name|url|description|tags (comma-separated)'' @ [CHR 0x0A]
     @ ''# Example: my-theme|https://github.com/user/my-theme.git|A beautiful theme|hyprland,eww''
     @ [CHR 0x0A, CHR 0x0A]"

definition repo_line :: "repo_info \<Rightarrow> string" where
  \<comment> \<open>the line \<^verbatim>\<open>save_repo_list\<close> writes for one entry\<close>
  "repo_line repo =
     (let tags_str = join '','' (repo_tags repo)
      in repo_name repo @ ''|'' @ repo_url repo @ ''|'' @ repo_description repo @ ''|'' @ tags_str
         @ [CHR 0x0A])"

definition write_text :: "node \<Rightarrow> path \<Rightarrow> string \<Rightarrow> node option" where
  \<comment> \<open>\<^verbatim>\<open>open(p, 'w')\<close> and the writes; \<open>None\<close> when the file cannot be opened\<close>
  "write_text fs p content =
     (if p = [] \<or> is_dir fs p \<or> \<not> is_dir fs (path_parent p) then None
      else put fs p (File content))"

definition save_repo_list :: "manager \<Rightarrow> node \<Rightarrow> repo_info list \<Rightarrow> bool \<times> node" where
  "save_repo_list m fs repos =
     (case write_text fs (repo_list_file m) (registry_header @ concat (map repo_line repos)) of
        Some fs' \<Rightarrow> (True, fs')
      | None \<Rightarrow> (False, fs))"

definition add_repo ::
  "manager \<Rightarrow> node \<Rightarrow> string \<Rightarrow> string \<Rightarrow> string list option \<Rightarrow> string \<Rightarrow> bool
     \<Rightarrow> (string \<times> string list) option \<Rightarrow> bool \<times> node" where
  \<comment> \<open>\<open>name\<close> is the name after its default (taken from the URL) has been applied;
      \<open>metadata\<close> is what reading the repository's metadata gave (its description and
      tags), \<open>None\<close> when that raised\<close>
  "add_repo m fs url description tags name fetch_metadata metadata =
     (let tags = (case tags of None \<Rightarrow> [] | Some ts \<Rightarrow> ts);
          repos = load_repo_list m fs in
      if list_ex (\<lambda>repo. repo_name repo = name \<or> repo_url repo = url) repos then (False, fs)
      else
        (let (description, tags) =
               (if fetch_metadata \<and> description = [] \<and> tags = [] then
                  (case metadata of
                     Some (md, mt) \<Rightarrow>
                       (if md \<noteq> [] then md else description, if mt \<noteq> [] then mt else tags)
                   | None \<Rightarrow> (description, tags))
                else (description, tags));
             new_repo = \<lparr>repo_name = name, repo_url = url, repo_description = description,
                         repo_tags = tags, line_number = None\<rparr>
         in save_repo_list m fs (repos @ [new_repo])))"

definition plain :: "string \<Rightarrow> bool" where
  \<comment> \<open>a field the registry line keeps as it is: ASCII, no separator, no line break, and no
      whitespace at either end\<close>
  "plain s = (ascii s \<and> strip s = s \<and> CHR ''|'' \<notin> set s \<and> CHR 0x0A \<notin> set s
              \<and> CHR 0x0D \<notin> set s)"

definition plain_tags :: "string list \<Rightarrow> bool" where
  \<comment> \<open>a non-empty tag list the registry line keeps as it is: ASCII tags, no comma,
      separator or line break in a tag, and no whitespace at either end of the joined tags\<close>
  "plain_tags tags =
     (tags \<noteq> [] \<and> strip (join '','' tags) = join '','' tags
      \<and> (\<forall>t \<in> set tags. ascii t \<and> CHR '','' \<notin> set t \<and> CHR ''|'' \<notin> set t
                          \<and> CHR 0x0A \<notin> set t \<and> CHR 0x0D \<notin> set t))"

definition registry_ascii :: "manager \<Rightarrow> node \<Rightarrow> bool" where
  \<comment> \<open>the registry file, when there is one, holds ASCII text\<close>
  "registry_ascii m fs =
     (case read_file fs (repo_list_file m) of None \<Rightarrow> True | Some content \<Rightarrow> ascii content)"

definition entry_line :: "string \<Rightarrow> string \<Rightarrow> string \<Rightarrow> string list \<Rightarrow> string" where
  \<comment> \<open>the registry line of an entry, without its line break\<close>
  "entry_line name url description tags =
     name @ ''|'' @ url @ ''|'' @ description @ ''|'' @ join '','' tags"

subsection \<open>The non-empty values of a fingerprint\<close>

definition nonempty_values :: "environment \<Rightarrow> environment" where
  \<comment> \<open>the entries of a fingerprint whose value is not the empty string\<close>
  "nonempty_values env = filter (\<lambda>kv. snd kv \<noteq> []) env"

section \<open>Example inputs\<close>

definition ex_config :: config where
  "ex_config = \<lparr>cfg_backup_existing = None, cfg_create_backup_dir = None, cfg_dry_run = None,
                 cfg_custom_mappings = Map.empty\<rparr>"

definition ex_rules :: compatibility where
  "ex_rules =
     \<lparr>single_config_only =
        [''alacritty'' \<mapsto> \<lparr>rule_message = ''Alacritty can only load one configuration file.'',
                             rule_suggestion = ''Consider using different config names.''\<rparr>],
      supports_multiple_configs =
        [''eww'' \<mapsto> \<lparr>rule_message = ''EWW supports multiple configuration files.'',
                       rule_suggestion = ''Use --config flag to specify different config files.''\<rparr>]\<rparr>"

definition ex_manager :: manager where
  "ex_manager = \<lparr>repo_path = [''repo''], home = [''home'', ''u''],
                  repo_list_file = [''repo'', ''compatible_repos.txt''],
                  config = ex_config, program_compatibility = ex_rules\<rparr>"

definition ex_bar :: node where
  \<comment> \<open>a repository with the widget \<^verbatim>\<open>bar\<close> and its three variants\<close>
  "ex_bar =
     Dir [(''repo'',
           Dir [(''bar'',
                 Dir [(''hyprland-zsh'', Dir [(''bar.conf'', File ''hz'')]),
                      (''hyprland'', Dir [(''bar.conf'', File ''h'')]),
                      (''default'', Dir [(''bar.conf'', File ''d'')])])]),
          (''home'', Dir [(''u'', Dir [(''.config'', Dir [])])])]"

definition ex_bar_reordered :: node where
  \<comment> \<open>the widget \<^verbatim>\<open>bar\<close> with its variants enumerated in another order\<close>
  "ex_bar_reordered =
     Dir [(''repo'',
           Dir [(''bar'',
                 Dir [(''default'', Dir [(''bar.conf'', File ''d'')]),
                      (''hyprland'', Dir [(''bar.conf'', File ''h'')]),
                      (''hyprland-zsh'', Dir [(''bar.conf'', File ''hz'')])])]),
          (''home'', Dir [(''u'', Dir [(''.config'', Dir [])])])]"

definition hyprland_zsh :: environment where
  "hyprland_zsh = [(''window_manager'', ''hyprland''), (''shell'', ''zsh'')]"

definition ex_dry_run :: manager where
  \<comment> \<open>the example manager in dry-run mode, with backups enabled\<close>
  "ex_dry_run = ex_manager\<lparr>config := ex_config\<lparr>cfg_dry_run := Some True, cfg_backup_existing := Some True\<rparr>\<rparr>"

definition ex_installed :: node where
  \<comment> \<open>a home directory in which \<^verbatim>\<open>bar.conf\<close> is installed already\<close>
  "ex_installed =
     Dir [(''repo'',
           Dir [(''bar'', Dir [(''default'', Dir [(''bar.conf'', File ''new'')])])]),
          (''home'',
           Dir [(''u'', Dir [(''.config'', Dir [(''bar'', Dir [(''bar.conf'', File ''old'')])])])])]"

definition ex_mapped :: manager where
  \<comment> \<open>the example manager with a custom mapping for the widget \<^verbatim>\<open>term\<close>\<close>
  "ex_mapped =
     ex_manager\<lparr>config := ex_config\<lparr>cfg_custom_mappings := [''term'' \<mapsto> [''kitty'' \<mapsto> ''kitten'']]\<rparr>\<rparr>"

definition ex_term :: node where
  \<comment> \<open>a repository with the widget \<^verbatim>\<open>term\<close>: files at the root of a variant, in program
      directories, and in a directory whose name starts with a dot\<close>
  "ex_term =
     Dir [(''repo'',
           Dir [(''term'',
                 Dir [(''hyprland'',
                       Dir [(''config.toml'', File ''c''),
                            (''.gitignore'', File ''g''),
                            (''alacritty'',
                             Dir [(''alacritty.yml'', File ''a1''), (''colors.yml'', File ''a2'')]),
                            (''kitty'', Dir [(''kitty.conf'', File ''k'')]),
                            (''.hidden'',
                             Dir [(''settings'', File ''s''), (''.secret'', File ''x'')])]),
                      (''default'',
                       Dir [(''alacritty'', Dir [(''alacritty.yml'', File ''a3'')]),
                            (''eww'', Dir [(''eww.yuck'', File ''e1''), (''eww.scss'', File ''e2'')])])])]),
          (''home'', Dir [(''u'', Dir [(''.config'', Dir [])])])]"

definition ex_overlap :: manager where
  \<comment> \<open>a rule table that registers \<^verbatim>\<open>alacritty\<close> under both kinds\<close>
  "ex_overlap =
     ex_manager\<lparr>program_compatibility :=
       \<lparr>single_config_only = [''alacritty'' \<mapsto> \<lparr>rule_message = ''one file only'', rule_suggestion = ''rename''\<rparr>],
        supports_multiple_configs =
          [''alacritty'' \<mapsto> \<lparr>rule_message = ''many files'', rule_suggestion = ''import''\<rparr>]\<rparr>\<rparr>"

definition ex_term_groups :: program_files where
  \<comment> \<open>the classified files of both variants of \<^verbatim>\<open>term\<close>, grouped by program name\<close>
  "ex_term_groups =
     group_by_program
       (get_config_files ex_mapped ex_term [''repo'', ''term'', ''hyprland'']
        @ get_config_files ex_mapped ex_term [''repo'', ''term'', ''default'']) []"

definition ex_backed_up :: node where
  \<comment> \<open>\<open>ex_installed\<close> after \<^verbatim>\<open>bar.conf\<close> has been installed over the existing file once\<close>
  "ex_backed_up =
     Dir [(''repo'',
           Dir [(''bar'', Dir [(''default'', Dir [(''bar.conf'', File ''new'')])])]),
          (''home'',
           Dir [(''u'',
                 Dir [(''.config'', Dir [(''bar'', Dir [(''bar.conf'', File ''new'')])]),
                      (''.config_backup'', Dir [(''bar.conf'', File ''old'')])])])]"

definition ex_blocked :: node where
  \<comment> \<open>a home directory in which \<^verbatim>\<open>~/.config/a\<close> is a regular file, and a widget whose
      default variant holds \<^verbatim>\<open>a.conf\<close> and \<^verbatim>\<open>b.conf\<close>\<close>
  "ex_blocked =
     Dir [(''repo'',
           Dir [(''bar'',
                 Dir [(''default'', Dir [(''a.conf'', File ''A''), (''b.conf'', File ''B'')])])]),
          (''home'', Dir [(''u'', Dir [(''.config'', Dir [(''a'', File ''not a directory'')])])])]"

definition ex_registered :: node where
  \<comment> \<open>\<open>ex_bar\<close> after a repository has been added to the registry\<close>
  "ex_registered =
     snd (add_repo ex_manager ex_bar ''https://example.org/theme.git'' ''A beautiful theme''
            (Some [''hyprland'', ''eww'']) ''my-theme'' False None)"

section \<open>Properties of the scorer\<close>

lemma startswith_prefix: "startswith s p \<longleftrightarrow> prefix p s"
  by (induction s p rule: startswith.induct) auto

lemma contains_sublist: "contains s sub \<longleftrightarrow> sublist sub s"
  by (induction s) (auto simp: startswith_prefix sublist_Cons_right)

lemma is_space_lower_char: "is_space (lower_char c) = is_space c"
  by (auto simp: is_space_def lower_char_def Let_def)

lemma split_ws_from_lower:
  "split_ws_from (lower cur) (lower s) = map lower (split_ws_from cur s)"
proof (induction s arbitrary: cur)
  case Nil
  then show ?case by (simp add: lower_def)
next
  case (Cons c s)
  from Cons[of "[]"] have e: "split_ws_from [] (lower s) = map lower (split_ws_from [] s)"
    by (simp add: lower_def)
  from Cons[of "cur @ [c]"]
  have n: "split_ws_from (lower cur @ [lower_char c]) (lower s) = map lower (split_ws_from (cur @ [c]) s)"
    by (simp add: lower_def)
  have "lower (c # s) = lower_char c # lower s" by (simp add: lower_def)
  moreover have "lower cur = [] \<longleftrightarrow> cur = []" by (simp add: lower_def)
  ultimately show ?case using e n by (simp add: is_space_lower_char)
qed

lemma split_ws_lower: "split_ws (lower s) = map lower (split_ws s)"
  using split_ws_from_lower[of "[]" s] by (simp add: split_ws_def lower_def)

lemma fold_count:
  "fold (\<lambda>kv s. if P kv then s + c else s) env (a::int) = a + c * int (length (filter P env))"
  by (induction env arbitrary: a) (auto simp: algebra_simps)

lemma exact_matches_count:
  "exact_matches env cn a =
     a + 2 * int (length (filter (\<lambda>kv. snd kv \<noteq> [] \<and> contains cn (lower (snd kv))) env))"
  unfolding exact_matches_def
  using fold_count[of "\<lambda>kv. snd kv \<noteq> [] \<and> contains cn (lower (snd kv))" 2 env a]
  by (simp add: case_prod_unfold)

lemma partial_matches_count:
  "partial_matches env cn a =
     a + int (length (filter (\<lambda>kv. snd kv \<noteq> [] \<and> list_ex (contains cn) (split_ws (lower (snd kv)))) env))"
  unfolding partial_matches_def
  using fold_count[of "\<lambda>kv. snd kv \<noteq> [] \<and> list_ex (contains cn) (split_ws (lower (snd kv)))" 1 env a]
  by (simp add: case_prod_unfold)

lemma config_score_spec:
  "config_score env p = spec_score (nonempty_values env) (path_name p)"
proof -
  have a: "(\<lambda>kv. snd kv \<noteq> [] \<and> contains (lower (path_name p)) (lower (snd kv)))
           = (\<lambda>kv. snd kv \<noteq> [] \<and> ci_substring (snd kv) (path_name p))"
    by (auto simp: ci_substring_def contains_sublist)
  have b: "(\<lambda>kv. snd kv \<noteq> [] \<and> list_ex (contains (lower (path_name p))) (split_ws (lower (snd kv))))
           = (\<lambda>kv. snd kv \<noteq> [] \<and> (\<exists>tok \<in> set (split_ws (snd kv)). ci_substring tok (path_name p)))"
    by (auto simp: ci_substring_def contains_sublist split_ws_lower list_ex_iff)
  show ?thesis
    by (simp add: config_score_def spec_score_def nonempty_values_def exact_matches_count
        partial_matches_count a b)
qed

lemma first_max_loop:
  fixes sc :: "'a \<Rightarrow> int"
  shows "fst (fold (\<lambda>v best. if snd best < sc v then (Some v, sc v) else best) vs (bc, bs)) =
     (if \<forall>v \<in> set vs. sc v \<le> bs then bc else find (\<lambda>v. \<forall>u \<in> set vs. sc u \<le> sc v) vs)"
proof (induction vs arbitrary: bc bs)
  case Nil
  then show ?case by simp
next
  case (Cons v vs)
  let ?top = "\<lambda>x. \<forall>u \<in> set vs. sc u \<le> sc x"
  show ?case
  proof (cases "bs < sc v")
    case True
    show ?thesis
    proof (cases "\<forall>u \<in> set vs. sc u \<le> sc v")
      case all: True
      with True Cons.IH[of "Some v" "sc v"] show ?thesis by auto
    next
      case False
      then obtain u where u: "u \<in> set vs" "sc v < sc u" by auto
      have "find (\<lambda>x. sc v \<le> sc x \<and> ?top x) vs = find ?top vs"
        using u by (intro find_cong) force+
      with True False Cons.IH[of "Some v" "sc v"] show ?thesis by auto
    qed
  next
    case nb: False
    show ?thesis
    proof (cases "\<forall>u \<in> set vs. sc u \<le> bs")
      case True
      with nb Cons.IH[of bc bs] show ?thesis by auto
    next
      case False
      then obtain u where u: "u \<in> set vs" "bs < sc u" by auto
      have "find (\<lambda>x. sc v \<le> sc x \<and> ?top x) vs = find ?top vs"
        using u nb by (intro find_cong) force+
      moreover have "\<not> (\<forall>u \<in> set vs. sc u \<le> sc v)" using u nb by force
      ultimately show ?thesis using nb False Cons.IH[of bc bs] by auto
    qed
  qed
qed

lemma fold_select_step:
  assumes "\<forall>v \<in> set vs. path_name v \<noteq> ''default''"
  shows "fold (select_step env) vs best =
         fold (\<lambda>v best. if snd best < config_score env v then (Some v, config_score env v) else best) vs best"
  using assms by (induction vs arbitrary: best) (auto simp: select_step_def Let_def)

lemma select_step_default: "path_name d = ''default'' \<Longrightarrow> select_step env d best = best"
  by (simp add: select_step_def)

lemma path_name_snoc [simp]: "path_name (p @ [n]) = n"
  by (simp add: path_name_def)

lemma exists_parent: "exists fs (p @ q) \<Longrightarrow> exists fs p"
  by (auto simp: exists_def lookup_append split: option.splits)

lemma find_widget_configs_shape:
  assumes "find_widget_configs m fs w = Inr configs"
  shows "\<exists>vs. (\<forall>v \<in> set vs. path_name v \<noteq> ''default'') \<and>
              configs = (if exists fs (path_join (repo_path m) w @ [''default''])
                         then vs @ [path_join (repo_path m) w @ [''default'']] else vs)"
  using assms
  by (auto simp: find_widget_configs_def Let_def split: if_splits sum.splits dest: exists_parent)

lemma find_widget_configs_total:
  "\<not> is_file fs (path_join (repo_path m) w) \<Longrightarrow> \<exists>configs. find_widget_configs m fs w = Inr configs"
  by (auto simp: find_widget_configs_def Let_def is_file_def exists_def iterdir_def
      split: option.splits node.splits)

lemma find_top:
  fixes sc :: "'a \<Rightarrow> int"
  assumes "vs \<noteq> []"
  shows "\<exists>b. find (\<lambda>v. \<forall>u \<in> set vs. sc u \<le> sc v) vs = Some b"
proof -
  have "Max (sc ` set vs) \<in> sc ` set vs" using assms by (intro Max_in) auto
  then obtain v where v: "v \<in> set vs" "sc v = Max (sc ` set vs)" by auto
  then have "\<forall>u \<in> set vs. sc u \<le> sc v" by simp
  with v(1) have "find (\<lambda>v. \<forall>u \<in> set vs. sc u \<le> sc v) vs \<noteq> None"
    by (auto simp: find_None_iff)
  then show ?thesis by auto
qed

text \<open>
  Claim C1, as amended. For a widget name without a \<^verbatim>\<open>..\<close> segment whose path is not a
  regular file, with ASCII variant names and ASCII fingerprint values, the selector
  \<^verbatim>\<open>select_best_config\<close> is the reference selector of the specification applied to the
  entries of the fingerprint whose value is not empty: among the variants other than
  \<^verbatim>\<open>default\<close>, each scored 2 per value that occurs in the variant name and 1 more per value
  one of whose whitespace-separated tokens occurs in it (letter case ignored), it returns
  the first variant of highest score when that score is above zero, and otherwise the
  \<^verbatim>\<open>default\<close> variant when it exists, and nothing when it does not.
\<close>

theorem select_best_config_refines:
  assumes nf: "\<not> is_file fs (path_join (repo_path m) w)"
    and lit: "literal w"
    and vals: "list_all ascii (map snd env)"
    and names: "list_all ascii (map path_name (spec_variants m fs w))"
  shows "select_best_config m fs w env = Inr (spec_select m fs w (nonempty_values env))"
proof -
  from find_widget_configs_total[OF nf] obtain configs
    where fc: "find_widget_configs m fs w = Inr configs" by blast
  let ?d = "path_join (repo_path m) w @ [''default'']"
  from find_widget_configs_shape[OF fc] obtain vs
    where nd: "\<forall>v \<in> set vs. path_name v \<noteq> ''default''"
      and cs: "configs = (if exists fs ?d then vs @ [?d] else vs)" by blast
  have sv: "spec_variants m fs w = vs"
    using fc nd cs by (auto simp: spec_variants_def filter_id_conv)
  let ?sc = "config_score env"
  have sc: "(\<lambda>v. spec_score (nonempty_values env) (path_name v)) = ?sc"
    by (rule ext) (simp add: config_score_spec)
  have loop: "fst (fold (select_step env) configs (None, 0)) =
     (if \<forall>v \<in> set vs. ?sc v \<le> 0 then None else find (\<lambda>v. \<forall>u \<in> set vs. ?sc u \<le> ?sc v) vs)"
    using first_max_loop[of ?sc vs None 0] fold_select_step[OF nd, of env "(None, 0)"]
    by (simp add: cs select_step_default)
  have spec: "spec_select m fs w (nonempty_values env) =
     (if vs = [] \<or> (\<forall>v \<in> set vs. ?sc v \<le> 0) then (if exists fs ?d then Some ?d else None)
      else find (\<lambda>v. \<forall>u \<in> set vs. ?sc u \<le> ?sc v) vs)"
    by (simp add: spec_select_def sv sc spec_default_def Let_def)
  show ?thesis
  proof (cases "\<forall>v \<in> set vs. ?sc v \<le> 0")
    case True
    then show ?thesis
      using fc cs loop by (auto simp: select_best_config_def spec Let_def)
  next
    case False
    then have ne: "vs \<noteq> []" by auto
    from find_top[OF ne, of ?sc] obtain b
      where b: "find (\<lambda>v. \<forall>u \<in> set vs. ?sc u \<le> ?sc v) vs = Some b" by blast
    have "configs \<noteq> []" using ne cs by auto
    then show ?thesis
      using fc False ne loop b by (auto simp: select_best_config_def spec)
  qed
qed

theorem select_best_config_refines_witness:
  "\<not> is_file ex_bar (path_join (repo_path ex_manager) ''bar'')
   \<and> literal ''bar''
   \<and> list_all ascii (map snd hyprland_zsh)
   \<and> list_all ascii (map path_name (spec_variants ex_manager ex_bar ''bar''))
   \<and> select_best_config ex_manager ex_bar ''bar'' hyprland_zsh
       = Inr (spec_select ex_manager ex_bar ''bar'' (nonempty_values hyprland_zsh))
   \<and> select_best_config ex_manager ex_bar ''bar'' hyprland_zsh
       = Inr (Some [''repo'', ''bar'', ''hyprland-zsh''])"
proof -
  have h: "\<not> is_file ex_bar (path_join (repo_path ex_manager) ''bar'')" by code_simp
  have l: "literal ''bar''" by code_simp
  have a: "list_all ascii (map snd hyprland_zsh)" by code_simp
  have n: "list_all ascii (map path_name (spec_variants ex_manager ex_bar ''bar''))"
    by code_simp
  have v: "select_best_config ex_manager ex_bar ''bar'' hyprland_zsh
             = Inr (Some [''repo'', ''bar'', ''hyprland-zsh''])" by code_simp
  from select_best_config_refines[OF h l a n] h l a n v show ?thesis by simp
qed

text \<open>
  Claim C1 as stated counts every fingerprint value that is a substring of the variant
  name. The empty string is a substring of every name, but the code skips an empty value
  (\<^verbatim>\<open>if env_value and ...\<close>): with the fingerprint \<^verbatim>\<open>{"shell": ""}\<close> the reference
  selector picks the first variant while the code falls back to \<^verbatim>\<open>default\<close>.
\<close>

theorem select_best_config_empty_value_counterexample:
  "select_best_config ex_manager ex_bar ''bar'' [(''shell'', '''')]
     = Inr (Some [''repo'', ''bar'', ''default''])
   \<and> spec_select ex_manager ex_bar ''bar'' [(''shell'', '''')]
     = Some [''repo'', ''bar'', ''hyprland-zsh'']
   \<and> select_best_config ex_manager ex_bar ''bar'' [(''shell'', '''')]
     \<noteq> Inr (spec_select ex_manager ex_bar ''bar'' [(''shell'', '''')])"
proof -
  have a: "select_best_config ex_manager ex_bar ''bar'' [(''shell'', '''')]
             = Inr (Some [''repo'', ''bar'', ''default''])" by code_simp
  have b: "spec_select ex_manager ex_bar ''bar'' [(''shell'', '''')]
             = Some [''repo'', ''bar'', ''hyprland-zsh'']" by code_simp
  from a b show ?thesis by simp
qed

lemma config_score_name: "config_score env p = config_score env [path_name p]"
  by (simp add: config_score_def path_name_def)

lemma hyprland_zsh_score_values:
  "config_score hyprland_zsh [''hyprland-zsh''] = 6" "config_score hyprland_zsh [''hyprland''] = 3"
  by code_simp+

lemma unique_top_selected:
  assumes x: "x \<in> set configs" "path_name x \<noteq> ''default''"
    and top: "\<forall>y \<in> set configs. path_name y \<noteq> ''default'' \<and> y \<noteq> x
                \<longrightarrow> config_score env y < config_score env x"
    and pos: "snd best < config_score env x \<or> best = (Some x, config_score env x)"
  shows "fold (select_step env) configs best = (Some x, config_score env x)"
  using assms
proof (induction configs arbitrary: best)
  case Nil
  then show ?case by simp
next
  case (Cons c configs)
  let ?b = "select_step env c best"
  show ?case
  proof (cases "x \<in> set configs")
    case True
    have "snd ?b < config_score env x \<or> ?b = (Some x, config_score env x)"
      using Cons.prems(2,3,4) by (cases "c = x") (auto simp: select_step_def Let_def)
    with Cons.IH[OF True Cons.prems(2) _ this] Cons.prems(3) show ?thesis by simp
  next
    case False
    with Cons.prems(1) have cx: "c = x" by simp
    have b: "?b = (Some x, config_score env x)"
      using Cons.prems(2,4) cx by (auto simp: select_step_def Let_def)
    have keep: "\<And>cs. \<forall>y \<in> set cs. path_name y \<noteq> ''default'' \<and> y \<noteq> x
                \<longrightarrow> config_score env y < config_score env x \<Longrightarrow>
         fold (select_step env) cs (Some x, config_score env x) = (Some x, config_score env x)"
    proof -
      fix cs
      show "\<forall>y \<in> set cs. path_name y \<noteq> ''default'' \<and> y \<noteq> x
                \<longrightarrow> config_score env y < config_score env x \<Longrightarrow>
         fold (select_step env) cs (Some x, config_score env x) = (Some x, config_score env x)"
        by (induction cs) (auto simp: select_step_def Let_def)
    qed
    from keep[of configs] Cons.prems(3) b show ?thesis by simp
  qed
qed

text \<open>
  Claim C2, as amended. For the fingerprint \<^verbatim>\<open>{window_manager: "hyprland", shell: "zsh"}\<close>
  and a widget (named without a \<^verbatim>\<open>..\<close> segment) whose variants are exactly \<^verbatim>\<open>hyprland-zsh\<close>,
  \<^verbatim>\<open>hyprland\<close> and \<^verbatim>\<open>default\<close>, in whatever order the directory enumerates them, the scorer
  gives \<^verbatim>\<open>hyprland-zsh\<close> the score 6 (2+2 for the two values, 1+1 for their tokens), gives
  \<^verbatim>\<open>hyprland\<close> the score 3 (2+1), and selects \<^verbatim>\<open>hyprland-zsh\<close>.
\<close>

theorem hyprland_zsh_selected:
  assumes lit: "literal w"
    and fc: "find_widget_configs m fs w = Inr configs"
    and vs: "set configs = {wp @ [''hyprland-zsh''], wp @ [''hyprland''], wp @ [''default'']}"
  shows "config_score hyprland_zsh (wp @ [''hyprland-zsh'']) = 6
         \<and> config_score hyprland_zsh (wp @ [''hyprland'']) = 3
         \<and> select_best_config m fs w hyprland_zsh = Inr (Some (wp @ [''hyprland-zsh'']))"
proof -
  let ?hz = "wp @ [''hyprland-zsh'']"
  have a: "config_score hyprland_zsh ?hz = 6"
    using config_score_name[of hyprland_zsh ?hz] by (simp add: hyprland_zsh_score_values)
  have b: "config_score hyprland_zsh (wp @ [''hyprland'']) = 3"
    using config_score_name[of hyprland_zsh "wp @ [''hyprland'']"]
    by (simp add: hyprland_zsh_score_values)
  have x: "?hz \<in> set configs" "path_name ?hz \<noteq> ''default''" using vs by auto
  have top: "\<forall>y \<in> set configs. path_name y \<noteq> ''default'' \<and> y \<noteq> ?hz
                \<longrightarrow> config_score hyprland_zsh y < config_score hyprland_zsh ?hz"
    using vs a b by auto
  have pos: "snd (None :: path option, 0 :: int) < config_score hyprland_zsh ?hz
             \<or> (None, 0) = (Some ?hz, config_score hyprland_zsh ?hz)" using a by simp
  from unique_top_selected[OF x top pos]
  have "fold (select_step hyprland_zsh) configs (None, 0) = (Some ?hz, 6)" using a by simp
  moreover have "configs \<noteq> []" using x by auto
  ultimately have "select_best_config m fs w hyprland_zsh = Inr (Some ?hz)"
    using fc by (simp add: select_best_config_def)
  with a b show ?thesis by simp
qed

theorem hyprland_zsh_selected_witness:
  "literal ''bar''
   \<and> find_widget_configs ex_manager ex_bar_reordered ''bar''
       = Inr [[''repo'', ''bar'', ''hyprland''], [''repo'', ''bar'', ''hyprland-zsh''],
              [''repo'', ''bar'', ''default'']]
   \<and> set [[''repo'', ''bar'', ''hyprland''], [''repo'', ''bar'', ''hyprland-zsh''],
           [''repo'', ''bar'', ''default'']]
       = {[''repo'', ''bar''] @ [''hyprland-zsh''], [''repo'', ''bar''] @ [''hyprland''],
          [''repo'', ''bar''] @ [''default'']}
   \<and> config_score hyprland_zsh ([''repo'', ''bar''] @ [''hyprland-zsh'']) = 6
   \<and> config_score hyprland_zsh ([''repo'', ''bar''] @ [''hyprland'']) = 3
   \<and> select_best_config ex_manager ex_bar_reordered ''bar'' hyprland_zsh
       = Inr (Some ([''repo'', ''bar''] @ [''hyprland-zsh'']))"
proof -
  have l: "literal ''bar''" by code_simp
  have h: "find_widget_configs ex_manager ex_bar_reordered ''bar''
       = Inr [[''repo'', ''bar'', ''hyprland''], [''repo'', ''bar'', ''hyprland-zsh''],
              [''repo'', ''bar'', ''default'']]" by code_simp
  have s: "set [[''repo'', ''bar'', ''hyprland''], [''repo'', ''bar'', ''hyprland-zsh''],
           [''repo'', ''bar'', ''default'']]
       = {[''repo'', ''bar''] @ [''hyprland-zsh''], [''repo'', ''bar''] @ [''hyprland''],
          [''repo'', ''bar''] @ [''default'']}" by auto
  from hyprland_zsh_selected[OF l h s] l h s show ?thesis by blast
qed

text \<open>
  Claim C2 as stated gives the scores 4 and 2. The second loop of the code adds a point for
  each value again, since a value without whitespace is its own single token.
\<close>

theorem hyprland_zsh_score_counterexample:
  "\<not> (config_score hyprland_zsh [''repo'', ''bar'', ''hyprland-zsh''] = 4
      \<and> config_score hyprland_zsh [''repo'', ''bar'', ''hyprland''] = 2
      \<and> select_best_config ex_manager ex_bar ''bar'' hyprland_zsh
          = Inr (Some [''repo'', ''bar'', ''hyprland-zsh'']))"
proof -
  have "config_score hyprland_zsh [''repo'', ''bar'', ''hyprland-zsh''] = 6" by code_simp
  then show ?thesis by simp
qed

section \<open>Properties of the installer\<close>

text \<open>
  Claim C7. In dry-run mode \<^verbatim>\<open>install_config\<close> returns success and leaves the file system
  as it found it, whatever the source, the destination, the backup settings and the state
  of the destination: no directory is created, nothing is backed up, nothing is copied.
\<close>

theorem install_config_dry_run:
  assumes "get_flag (cfg_dry_run (config m)) False"
  shows "install_config m fs source_path target_dir = Inr (True, fs)"
  using assms by (simp add: install_config_def)

theorem install_config_dry_run_witness:
  "get_flag (cfg_dry_run (config ex_dry_run)) False
   \<and> exists ex_installed [''home'', ''u'', ''.config'', ''bar'', ''bar.conf'']
   \<and> install_config ex_dry_run ex_installed [''repo'', ''bar'', ''default'', ''bar.conf'']
        [''home'', ''u'', ''.config'', ''bar''] = Inr (True, ex_installed)"
proof -
  have h: "get_flag (cfg_dry_run (config ex_dry_run)) False" by code_simp
  have e: "exists ex_installed [''home'', ''u'', ''.config'', ''bar'', ''bar.conf'']" by code_simp
  from install_config_dry_run[OF h] h e show ?thesis by simp
qed

section \<open>Properties of the classifier\<close>

lemma rglob_rel_nonempty: "rel \<in> set (rglob_rel t) \<Longrightarrow> rel \<noteq> []"
  by (cases t) auto

lemma rglob_rel_complete: "lookup t rel = Some x \<Longrightarrow> rel \<noteq> [] \<Longrightarrow> rel \<in> set (rglob_rel t)"
proof (induction rel arbitrary: t)
  case Nil
  then show ?case by simp
next
  case (Cons n r)
  then obtain es where t: "t = Dir es" by (cases t) auto
  with Cons.prems obtain c where c: "map_of es n = Some c" "lookup c r = Some x"
    by (auto split: option.splits)
  then have mem: "(n, c) \<in> set es" by (auto dest: map_of_SomeD)
  show ?case
  proof (cases "r = []")
    case True
    with mem t show ?thesis by force
  next
    case False
    from Cons.IH[OF c(2) False] mem t show ?thesis by force
  qed
qed

lemma rglob_complete:
  assumes "is_file fs (config_path @ rel)" and "rel \<noteq> []"
  shows "rel \<in> set (rglob fs config_path)"
proof -
  from assms(1) obtain t c where "lookup fs config_path = Some t" "lookup t rel = Some (File c)"
    by (auto simp: is_file_def lookup_append split: option.splits node.splits)
  with assms(2) show ?thesis by (auto simp: rglob_def intro: rglob_rel_complete)
qed

lemma get_config_files_iff:
  "(source, target) \<in> set (get_config_files m fs config_path) \<longleftrightarrow>
     (\<exists>rel \<in> set (rglob fs config_path). source = config_path @ rel \<and> is_file fs source
        \<and> \<not> startswith (path_name source) ''.'' \<and> target = target_dir_of m config_path rel)"
  by (auto simp: get_config_files_def)

lemma rglob_nonempty: "rel \<in> set (rglob fs config_path) \<Longrightarrow> rel \<noteq> []"
  by (auto simp: rglob_def split: option.splits dest: rglob_rel_nonempty)

lemma get_config_files_complete:
  assumes "is_file fs (config_path @ rel)" and "rel \<noteq> []" and "\<not> startswith (last rel) ''.''"
  shows "(config_path @ rel, target_dir_of m config_path rel) \<in> set (get_config_files m fs config_path)"
  using assms rglob_complete[OF assms(1,2)] by (auto simp: get_config_files_iff path_name_def)

text \<open>
  Claim C3. Every pair that \<^verbatim>\<open>get_config_files\<close> yields for a variant is a file at a
  non-empty relative path below the variant root. When the path has more than one segment,
  the destination is the home configuration directory joined with the first segment, or
  with the name the owning widget's custom mappings give for that segment when they have
  one; when the file sits at the variant root, the destination is the home configuration
  directory joined with the file name without its extension. A root file \<^verbatim>\<open>config.toml\<close> is
  classified with the destination \<^verbatim>\<open>config\<close>, and a file \<^verbatim>\<open>alacritty/alacritty.yml\<close> with the
  destination \<^verbatim>\<open>alacritty\<close> when no custom mapping names \<^verbatim>\<open>alacritty\<close>.
\<close>

theorem get_config_files_destination:
  "(\<forall>source target. (source, target) \<in> set (get_config_files m fs config_path) \<longrightarrow>
      (\<exists>rel. rel \<noteq> [] \<and> source = config_path @ rel \<and>
         (if length rel > 1 then
            (case widget_mappings m config_path (hd rel) of
               Some mapped \<Rightarrow> target = path_join (home_config m) mapped
             | None \<Rightarrow> target = home_config m @ [hd rel])
          else target = home_config m @ [stem (path_name source)])))
   \<and> (is_file fs (config_path @ [''config.toml'']) \<longrightarrow>
        (config_path @ [''config.toml''], home_config m @ [''config''])
          \<in> set (get_config_files m fs config_path))
   \<and> (is_file fs (config_path @ [''alacritty'', ''alacritty.yml''])
        \<and> widget_mappings m config_path ''alacritty'' = None \<longrightarrow>
        (config_path @ [''alacritty'', ''alacritty.yml''], home_config m @ [''alacritty''])
          \<in> set (get_config_files m fs config_path))"
proof (intro conjI allI impI)
  fix source target
  assume "(source, target) \<in> set (get_config_files m fs config_path)"
  then obtain rel where rel: "rel \<in> set (rglob fs config_path)" "source = config_path @ rel"
      "target = target_dir_of m config_path rel"
    by (auto simp: get_config_files_iff)
  from rglob_nonempty[OF rel(1)] rel(2,3)
  show "\<exists>rel. rel \<noteq> [] \<and> source = config_path @ rel \<and>
         (if length rel > 1 then
            (case widget_mappings m config_path (hd rel) of
               Some mapped \<Rightarrow> target = path_join (home_config m) mapped
             | None \<Rightarrow> target = home_config m @ [hd rel])
          else target = home_config m @ [stem (path_name source)])"
    by (intro exI[of _ rel]) (auto simp: target_dir_of_def Let_def split: option.splits)
next
  assume f: "is_file fs (config_path @ [''config.toml''])"
  have s: "stem ''config.toml'' = ''config''" by code_simp
  from get_config_files_complete[OF f, of m]
  show "(config_path @ [''config.toml''], home_config m @ [''config''])
          \<in> set (get_config_files m fs config_path)"
    by (simp add: target_dir_of_def s)
next
  assume "is_file fs (config_path @ [''alacritty'', ''alacritty.yml''])
        \<and> widget_mappings m config_path ''alacritty'' = None"
  then have f: "is_file fs (config_path @ [''alacritty'', ''alacritty.yml''])"
    and n: "widget_mappings m config_path ''alacritty'' = None" by auto
  from get_config_files_complete[OF f, of m] n
  show "(config_path @ [''alacritty'', ''alacritty.yml''], home_config m @ [''alacritty''])
          \<in> set (get_config_files m fs config_path)"
    by (simp add: target_dir_of_def)
qed

theorem get_config_files_destination_witness:
  "is_file ex_term ([''repo'', ''term'', ''hyprland''] @ [''config.toml''])
   \<and> ([''repo'', ''term'', ''hyprland''] @ [''config.toml''], home_config ex_mapped @ [''config''])
        \<in> set (get_config_files ex_mapped ex_term [''repo'', ''term'', ''hyprland''])
   \<and> is_file ex_term ([''repo'', ''term'', ''hyprland''] @ [''alacritty'', ''alacritty.yml''])
   \<and> widget_mappings ex_mapped [''repo'', ''term'', ''hyprland''] ''alacritty'' = None
   \<and> ([''repo'', ''term'', ''hyprland''] @ [''alacritty'', ''alacritty.yml''],
       home_config ex_mapped @ [''alacritty''])
        \<in> set (get_config_files ex_mapped ex_term [''repo'', ''term'', ''hyprland''])
   \<and> ([''repo'', ''term'', ''hyprland'', ''kitty'', ''kitty.conf''], [''home'', ''u'', ''.config'', ''kitten''])
        \<in> set (get_config_files ex_mapped ex_term [''repo'', ''term'', ''hyprland''])"
proof -
  have a: "is_file ex_term ([''repo'', ''term'', ''hyprland''] @ [''config.toml''])" by code_simp
  have b: "is_file ex_term ([''repo'', ''term'', ''hyprland''] @ [''alacritty'', ''alacritty.yml''])"
    by code_simp
  have c: "widget_mappings ex_mapped [''repo'', ''term'', ''hyprland''] ''alacritty'' = None"
    by code_simp
  have d: "([''repo'', ''term'', ''hyprland'', ''kitty'', ''kitty.conf''], [''home'', ''u'', ''.config'', ''kitten''])
        \<in> set (get_config_files ex_mapped ex_term [''repo'', ''term'', ''hyprland''])"
    by code_simp
  from get_config_files_destination[of ex_mapped ex_term "[''repo'', ''term'', ''hyprland'']"] a b c d
  show ?thesis by blast
qed

text \<open>
  Claim C10. The hidden-file test of \<^verbatim>\<open>get_config_files\<close> looks at the file's own name only.
  A regular file below the variant root is classified exactly when its own name does not
  start with a dot, whatever the names of the directories above it; a file so classified
  at a nested path whose first segment has no custom mapping has that first segment as its
  destination program name, also when the segment starts with a dot.
\<close>

theorem hidden_file_skip_tests_basename:
  assumes "is_file fs (config_path @ rel)" and "rel \<noteq> []"
  shows "(config_path @ rel \<in> fst ` set (get_config_files m fs config_path)
            \<longleftrightarrow> \<not> startswith (last rel) ''.'')
         \<and> (\<not> startswith (last rel) ''.'' \<and> length rel > 1
              \<and> widget_mappings m config_path (hd rel) = None \<longrightarrow>
            (config_path @ rel, home_config m @ [hd rel]) \<in> set (get_config_files m fs config_path))"
proof (intro conjI impI iffI)
  assume "config_path @ rel \<in> fst ` set (get_config_files m fs config_path)"
  then obtain target where "(config_path @ rel, target) \<in> set (get_config_files m fs config_path)"
    by auto
  then have "\<not> startswith (path_name (config_path @ rel)) ''.''"
    by (auto simp: get_config_files_iff)
  with assms(2) show "\<not> startswith (last rel) ''.''" by (simp add: path_name_def)
next
  assume "\<not> startswith (last rel) ''.''"
  from get_config_files_complete[OF assms this, of m]
  show "config_path @ rel \<in> fst ` set (get_config_files m fs config_path)" by force
next
  assume a: "\<not> startswith (last rel) ''.'' \<and> length rel > 1
              \<and> widget_mappings m config_path (hd rel) = None"
  then have "\<not> startswith (last rel) ''.''" by simp
  from get_config_files_complete[OF assms this, of m] a
  show "(config_path @ rel, home_config m @ [hd rel]) \<in> set (get_config_files m fs config_path)"
    by (simp add: target_dir_of_def)
qed

theorem hidden_file_skip_tests_basename_witness:
  "is_file ex_term ([''repo'', ''term'', ''hyprland''] @ [''.hidden'', ''settings''])
   \<and> [''.hidden'', ''settings''] \<noteq> []
   \<and> \<not> startswith (last [''.hidden'', ''settings'']) ''.''
   \<and> startswith (hd [''.hidden'', ''settings'']) ''.''
   \<and> widget_mappings ex_mapped [''repo'', ''term'', ''hyprland''] (hd [''.hidden'', ''settings'']) = None
   \<and> ([''repo'', ''term'', ''hyprland''] @ [''.hidden'', ''settings''],
       home_config ex_mapped @ [''.hidden''])
        \<in> set (get_config_files ex_mapped ex_term [''repo'', ''term'', ''hyprland''])"
proof -
  have a: "is_file ex_term ([''repo'', ''term'', ''hyprland''] @ [''.hidden'', ''settings''])"
    by code_simp
  have b: "[''.hidden'', ''settings''] \<noteq> ([] :: path)" by simp
  have c: "\<not> startswith (last [''.hidden'', ''settings'']) ''.''" by code_simp
  have d: "startswith (hd [''.hidden'', ''settings'']) ''.''" by code_simp
  have e: "widget_mappings ex_mapped [''repo'', ''term'', ''hyprland''] (hd [''.hidden'', ''settings'']) = None"
    by code_simp
  from hidden_file_skip_tests_basename[OF a b, of ex_mapped] a c d e show ?thesis by simp
qed

section \<open>Properties of the conflict detector\<close>

lemma group_by_program_append:
  "group_by_program (xs @ ys) d = group_by_program ys (group_by_program xs d)"
  by (simp add: group_by_program_def)

lemma group_by_program_concat:
  "fold (\<lambda>config_path d. group_by_program (f config_path) d) cps d
     = group_by_program (concat (map f cps)) d"
  by (induction cps arbitrary: d) (simp_all add: group_by_program_append, simp add: group_by_program_def)

lemma check_program_appends:
  "check_program pc item w =
     w\<lparr>single_config_warnings := single_config_warnings w @ program_warnings pc item,
       multiple_config_info := multiple_config_info w @ program_info pc item\<rparr>"
  by (simp add: check_program_def program_warnings_def program_info_def Let_def
      split: option.splits)

lemma fold_check_program:
  "fold (check_program pc) pf w =
     w\<lparr>single_config_warnings := single_config_warnings w @ concat (map (program_warnings pc) pf),
       multiple_config_info := multiple_config_info w @ concat (map (program_info pc) pf)\<rparr>"
proof (induction pf arbitrary: w)
  case Nil
  then show ?case by simp
next
  case (Cons item pf)
  have "fold (check_program pc) (item # pf) w = fold (check_program pc) pf (check_program pc item w)"
    by simp
  also note Cons.IH[of "check_program pc item w"]
  finally show ?case unfolding check_program_appends[of pc item w] by simp
qed

lemma report_blocks:
  "single_config_warnings (report pc pf) = concat (map (program_warnings pc) pf)"
  "multiple_config_info (report pc pf) = concat (map (program_info pc) pf)"
  by (simp_all add: report_def fold_check_program)

lemma add_program_file_keys:
  "map fst (add_program_file d name pair)
     = (if name \<in> set (map fst d) then map fst d else map fst d @ [name])"
  by (induction d name pair rule: add_program_file.induct) auto

lemma add_program_file_map:
  "map_of (add_program_file d name pair)
     = (map_of d)(name \<mapsto> (case map_of d name of None \<Rightarrow> [pair] | Some fl \<Rightarrow> fl @ [pair]))"
  by (induction d name pair rule: add_program_file.induct) (auto simp: fun_eq_iff)

lemma group_by_program_distinct:
  "distinct (map fst d) \<Longrightarrow> distinct (map fst (group_by_program files d))"
proof (induction files arbitrary: d)
  case Nil
  then show ?case by (simp add: group_by_program_def)
next
  case (Cons f files)
  have "distinct (map fst (add_program_file d (path_name (snd f)) (fst f, snd f)))"
    using Cons.prems by (simp add: add_program_file_keys)
  from Cons.IH[OF this] show ?case by (simp add: group_by_program_def case_prod_unfold)
qed

lemma group_by_program_map:
  "map_of (group_by_program files d) name =
     (let new = filter (\<lambda>p. path_name (snd p) = name) files
      in case map_of d name of
           Some old \<Rightarrow> Some (old @ new)
         | None \<Rightarrow> if new = [] then None else Some new)"
proof (induction files arbitrary: d)
  case Nil
  then show ?case by (simp add: group_by_program_def split: option.splits)
next
  case (Cons f files)
  let ?d = "add_program_file d (path_name (snd f)) (fst f, snd f)"
  have "group_by_program (f # files) d = group_by_program files ?d"
    by (simp add: group_by_program_def case_prod_unfold)
  then show ?case
    by (simp add: Cons.IH add_program_file_map Let_def split: option.splits)
qed

lemma group_by_program_iff:
  "(name, fl) \<in> set (group_by_program files [])
     \<longleftrightarrow> fl \<noteq> [] \<and> fl = filter (\<lambda>p. path_name (snd p) = name) files"
proof -
  have d: "distinct (map fst (group_by_program files []))"
    by (rule group_by_program_distinct) simp
  have "(name, fl) \<in> set (group_by_program files [])
          \<longleftrightarrow> map_of (group_by_program files []) name = Some fl"
    using d by simp
  also have "\<dots> \<longleftrightarrow> fl \<noteq> [] \<and> fl = filter (\<lambda>p. path_name (snd p) = name) files"
    by (auto simp: group_by_program_map Let_def)
  finally show ?thesis .
qed

lemma program_files_of_files:
  assumes "program_files_of m fs config_files widget_name = Inr pf"
  shows "\<exists>files. pf = group_by_program files []
           \<and> (widget_name = None \<or> widget_name = Some [] \<longrightarrow> files = config_files)
           \<and> (\<forall>w all_configs. widget_name = Some w \<and> w \<noteq> []
                   \<and> find_widget_configs m fs w = Inr all_configs \<longrightarrow>
                 files = (if 1 < length all_configs
                          then concat (map (get_config_files m fs) all_configs)
                          else config_files))"
  using assms
  by (auto simp: program_files_of_def Let_def group_by_program_concat
      split: option.splits if_splits sum.splits)

text \<open>
  Claim C5. When \<^verbatim>\<open>check_program_compatibility\<close> is given a widget name (a non-empty one:
  the empty string is falsy and counts as no widget; and one without a \<^verbatim>\<open>..\<close> segment) and
  the widget's variants can be listed, the dictionary it checks has one group for each
  destination program name, and the group of a name is the list of the pairs with that
  destination name, in their order, taken from the classified files of all the variants of
  the widget when the widget has more than one variant, whatever pairs were passed in, and
  from the pairs passed in when it has at most one variant. The result is the report on
  that dictionary, which is the result of the check, without a widget, of those files.
\<close>

theorem compatibility_check_widens_to_all_variants:
  assumes w: "w \<noteq> []" and lit: "literal w"
    and fc: "find_widget_configs m fs w = Inr all_configs"
  shows "\<exists>pf. program_files_of m fs config_files (Some w) = Inr pf
           \<and> check_program_compatibility m fs config_files (Some w)
               = Inr (report (program_compatibility m) pf)
           \<and> distinct (map fst pf)
           \<and> (\<forall>name fl. (name, fl) \<in> set pf
                 \<longleftrightarrow> fl \<noteq> []
                     \<and> fl = filter (\<lambda>p. path_name (snd p) = name)
                              (if 1 < length all_configs
                               then concat (map (get_config_files m fs) all_configs)
                               else config_files))
           \<and> check_program_compatibility m fs config_files (Some w)
               = (if 1 < length all_configs
                  then check_program_compatibility m fs
                         (concat (map (get_config_files m fs) all_configs)) None
                  else check_program_compatibility m fs config_files None)"
proof -
  let ?files = "if 1 < length all_configs
                then concat (map (get_config_files m fs) all_configs) else config_files"
  have p: "program_files_of m fs config_files (Some w) = Inr (group_by_program ?files [])"
    using w fc by (simp add: program_files_of_def group_by_program_concat)
  have c: "check_program_compatibility m fs config_files (Some w)
             = Inr (report (program_compatibility m) (group_by_program ?files []))"
    using p by (simp add: check_program_compatibility_def)
  have d: "distinct (map fst (group_by_program ?files []))"
    by (rule group_by_program_distinct) simp
  have e: "check_program_compatibility m fs config_files (Some w)
               = (if 1 < length all_configs
                  then check_program_compatibility m fs
                         (concat (map (get_config_files m fs) all_configs)) None
                  else check_program_compatibility m fs config_files None)"
    using w fc
    by (simp add: check_program_compatibility_def program_files_of_def group_by_program_concat)
  from p c d e group_by_program_iff[of _ _ ?files] show ?thesis
    by (intro exI[of _ "group_by_program ?files []"]) simp
qed

theorem compatibility_check_widens_to_all_variants_witness:
  "''term'' \<noteq> [] \<and> literal ''term''
   \<and> find_widget_configs ex_mapped ex_term ''term''
       = Inr [[''repo'', ''term'', ''hyprland''], [''repo'', ''term'', ''default'']]
   \<and> program_files_of ex_mapped ex_term
        (get_config_files ex_mapped ex_term [''repo'', ''term'', ''default'']) (Some ''term'')
       = Inr ex_term_groups
   \<and> (''alacritty'',
        [([''repo'', ''term'', ''hyprland'', ''alacritty'', ''alacritty.yml''],
          [''home'', ''u'', ''.config'', ''alacritty'']),
         ([''repo'', ''term'', ''hyprland'', ''alacritty'', ''colors.yml''],
          [''home'', ''u'', ''.config'', ''alacritty'']),
         ([''repo'', ''term'', ''default'', ''alacritty'', ''alacritty.yml''],
          [''home'', ''u'', ''.config'', ''alacritty''])]) \<in> set ex_term_groups
   \<and> check_program_compatibility ex_mapped ex_term
        (get_config_files ex_mapped ex_term [''repo'', ''term'', ''default'']) (Some ''term'')
       = Inr (report (program_compatibility ex_mapped) ex_term_groups)"
proof -
  let ?cf = "get_config_files ex_mapped ex_term [''repo'', ''term'', ''default'']"
  let ?all = "[[''repo'', ''term'', ''hyprland''], [''repo'', ''term'', ''default'']]"
  let ?fl = "[([''repo'', ''term'', ''hyprland'', ''alacritty'', ''alacritty.yml''],
          [''home'', ''u'', ''.config'', ''alacritty'']),
         ([''repo'', ''term'', ''hyprland'', ''alacritty'', ''colors.yml''],
          [''home'', ''u'', ''.config'', ''alacritty'']),
         ([''repo'', ''term'', ''default'', ''alacritty'', ''alacritty.yml''],
          [''home'', ''u'', ''.config'', ''alacritty''])]"
  have a: "''term'' \<noteq> []" by simp
  have l: "literal ''term''" by code_simp
  have b: "find_widget_configs ex_mapped ex_term ''term'' = Inr ?all" by code_simp
  have g: "program_files_of ex_mapped ex_term ?cf (Some ''term'') = Inr ex_term_groups"
    by code_simp
  have f: "?fl = filter (\<lambda>p. path_name (snd p) = ''alacritty'')
                   (if 1 < length ?all
                    then concat (map (get_config_files ex_mapped ex_term) ?all) else ?cf)"
    by code_simp
  from compatibility_check_widens_to_all_variants[OF a l b, of ?cf] obtain pf
    where p: "program_files_of ex_mapped ex_term ?cf (Some ''term'') = Inr pf"
      and c: "check_program_compatibility ex_mapped ex_term ?cf (Some ''term'')
                = Inr (report (program_compatibility ex_mapped) pf)"
      and i: "\<forall>name fl. (name, fl) \<in> set pf
                 \<longleftrightarrow> fl \<noteq> []
                     \<and> fl = filter (\<lambda>p. path_name (snd p) = name)
                              (if 1 < length ?all
                               then concat (map (get_config_files ex_mapped ex_term) ?all)
                               else ?cf)"
    by blast
  from p g have e: "pf = ex_term_groups" by simp
  from i f have "(''alacritty'', ?fl) \<in> set pf" by blast
  with a l b g c e show ?thesis by simp
qed

text \<open>
  Claim C4, as amended. For ASCII program names (and a widget name, when one is given,
  without a \<^verbatim>\<open>..\<close> segment), whenever the dictionary of the check can be computed: the
  dictionary has one group for each destination program name of the files checked (the
  classified files of all variants of the widget when a widget with a non-empty name and
  more than one variant is given, and the pairs passed in otherwise), the group of a name
  being the list of the files with that destination name, in their order; and the two message lists of the result are the concatenation,
  group by group, of what each program name contributes. A program name with more than one
  file contributes: when it is registered under \<^verbatim>\<open>single_config_only\<close>, the warning that
  holds the name in upper case, the suggestion, a heading and one detail line per file, and
  no information; when it is registered under \<^verbatim>\<open>supports_multiple_configs\<close> and not under
  \<^verbatim>\<open>single_config_only\<close>, the information line that holds the name in upper case and the
  suggestion, and no warning; when it is registered under neither, nothing. A program name
  with one file contributes nothing.
\<close>

theorem check_program_compatibility_messages:
  assumes pf: "program_files_of m fs config_files widget_name = Inr pf"
    and names: "list_all ascii (map fst pf)"
    and lit: "case widget_name of None \<Rightarrow> True | Some w \<Rightarrow> literal w"
  shows "\<exists>result files.
           check_program_compatibility m fs config_files widget_name = Inr result
           \<and> (widget_name = None \<or> widget_name = Some [] \<longrightarrow> files = config_files)
           \<and> (\<forall>w all_configs. widget_name = Some w \<and> w \<noteq> []
                   \<and> find_widget_configs m fs w = Inr all_configs \<longrightarrow>
                 files = (if 1 < length all_configs
                          then concat (map (get_config_files m fs) all_configs)
                          else config_files))
           \<and> distinct (map fst pf)
           \<and> (\<forall>name fl. (name, fl) \<in> set pf
                 \<longleftrightarrow> fl \<noteq> [] \<and> fl = filter (\<lambda>p. path_name (snd p) = name) files)
           \<and> single_config_warnings result
               = concat (map (program_warnings (program_compatibility m)) pf)
           \<and> multiple_config_info result
               = concat (map (program_info (program_compatibility m)) pf)
           \<and> (\<forall>(name, fl) \<in> set pf.
                if length fl > 1 then
                  (case single_config_only (program_compatibility m) name of
                     Some r \<Rightarrow>
                       program_warnings (program_compatibility m) (name, fl)
                         = [warning_sign @ ''  '' @ upper name @ '': '' @ rule_message r,
                            ''   '' @ light_bulb @ '' Suggestion: '' @ rule_suggestion r,
                            ''   Conflicting files:''] @ map file_detail fl
                       \<and> program_info (program_compatibility m) (name, fl) = []
                   | None \<Rightarrow>
                       program_warnings (program_compatibility m) (name, fl) = []
                       \<and> (case supports_multiple_configs (program_compatibility m) name of
                             Some r \<Rightarrow>
                               program_info (program_compatibility m) (name, fl)
                                 = [info_sign @ ''  '' @ upper name @ '': '' @ rule_message r,
                                    ''   '' @ light_bulb @ '' Suggestion: '' @ rule_suggestion r]
                           | None \<Rightarrow> program_info (program_compatibility m) (name, fl) = []))
                else program_warnings (program_compatibility m) (name, fl) = []
                     \<and> program_info (program_compatibility m) (name, fl) = [])"
proof -
  let ?pc = "program_compatibility m"
  from program_files_of_files[OF pf] obtain files
    where g: "pf = group_by_program files []"
      and f: "widget_name = None \<or> widget_name = Some [] \<longrightarrow> files = config_files"
      and f': "\<forall>w all_configs. widget_name = Some w \<and> w \<noteq> []
                   \<and> find_widget_configs m fs w = Inr all_configs \<longrightarrow>
                 files = (if 1 < length all_configs
                          then concat (map (get_config_files m fs) all_configs)
                          else config_files)"
    by blast
  have r: "check_program_compatibility m fs config_files widget_name = Inr (report ?pc pf)"
    using pf by (simp add: check_program_compatibility_def)
  have d: "distinct (map fst pf)" unfolding g by (rule group_by_program_distinct) simp
  have c: "\<forall>name fl. (name, fl) \<in> set pf
                 \<longleftrightarrow> fl \<noteq> [] \<and> fl = filter (\<lambda>p. path_name (snd p) = name) files"
    unfolding g by (simp add: group_by_program_iff)
  have blocks: "\<forall>(name, fl) \<in> set pf.
                if length fl > 1 then
                  (case single_config_only ?pc name of
                     Some r \<Rightarrow>
                       program_warnings ?pc (name, fl)
                         = [warning_sign @ ''  '' @ upper name @ '': '' @ rule_message r,
                            ''   '' @ light_bulb @ '' Suggestion: '' @ rule_suggestion r,
                            ''   Conflicting files:''] @ map file_detail fl
                       \<and> program_info ?pc (name, fl) = []
                   | None \<Rightarrow>
                       program_warnings ?pc (name, fl) = []
                       \<and> (case supports_multiple_configs ?pc name of
                             Some r \<Rightarrow>
                               program_info ?pc (name, fl)
                                 = [info_sign @ ''  '' @ upper name @ '': '' @ rule_message r,
                                    ''   '' @ light_bulb @ '' Suggestion: '' @ rule_suggestion r]
                           | None \<Rightarrow> program_info ?pc (name, fl) = []))
                else program_warnings ?pc (name, fl) = [] \<and> program_info ?pc (name, fl) = []"
    by (auto simp: program_warnings_def program_info_def check_program_def Let_def
        split: option.splits)
  from r f f' d c blocks report_blocks[of ?pc pf] show ?thesis by blast
qed

theorem check_program_compatibility_messages_witness:
  "program_files_of ex_mapped ex_term
     (get_config_files ex_mapped ex_term [''repo'', ''term'', ''hyprland'']
      @ get_config_files ex_mapped ex_term [''repo'', ''term'', ''default'']) None
     = Inr ex_term_groups
   \<and> list_all ascii (map fst ex_term_groups)
   \<and> (case (None :: string option) of None \<Rightarrow> True | Some w \<Rightarrow> literal w)
   \<and> (''eww'',
        [([''repo'', ''term'', ''default'', ''eww'', ''eww.yuck''], [''home'', ''u'', ''.config'', ''eww'']),
         ([''repo'', ''term'', ''default'', ''eww'', ''eww.scss''], [''home'', ''u'', ''.config'', ''eww''])])
       \<in> set ex_term_groups
   \<and> (\<exists>result.
         check_program_compatibility ex_mapped ex_term
           (get_config_files ex_mapped ex_term [''repo'', ''term'', ''hyprland'']
            @ get_config_files ex_mapped ex_term [''repo'', ''term'', ''default'']) None
           = Inr result
         \<and> single_config_warnings result
             = [warning_sign @ ''  ALACRITTY: Alacritty can only load one configuration file.'',
                ''   '' @ light_bulb @ '' Suggestion: Consider using different config names.'',
                ''   Conflicting files:'',
                ''     - hyprland: alacritty.yml'',
                ''     - hyprland: colors.yml'',
                ''     - default: alacritty.yml'']
         \<and> multiple_config_info result
             = [info_sign @ ''  EWW: EWW supports multiple configuration files.'',
                ''   '' @ light_bulb @ '' Suggestion: Use --config flag to specify different config files.''])"
proof -
  let ?cf = "get_config_files ex_mapped ex_term [''repo'', ''term'', ''hyprland'']
             @ get_config_files ex_mapped ex_term [''repo'', ''term'', ''default'']"
  let ?fl = "[([''repo'', ''term'', ''default'', ''eww'', ''eww.yuck''], [''home'', ''u'', ''.config'', ''eww'']),
         ([''repo'', ''term'', ''default'', ''eww'', ''eww.scss''], [''home'', ''u'', ''.config'', ''eww''])]"
  have h: "program_files_of ex_mapped ex_term ?cf None = Inr ex_term_groups" by code_simp
  have n: "list_all ascii (map fst ex_term_groups)" by code_simp
  have l: "case (None :: string option) of None \<Rightarrow> True | Some w \<Rightarrow> literal w" by simp
  have fl: "?fl \<noteq> [] \<and> ?fl = filter (\<lambda>p. path_name (snd p) = ''eww'') ?cf"
    by code_simp
  from check_program_compatibility_messages[OF h n l] obtain result files
    where r: "check_program_compatibility ex_mapped ex_term ?cf None = Inr result"
      and f: "(None :: string option) = None \<or> (None :: string option) = Some []
                \<longrightarrow> files = ?cf"
      and c: "\<forall>name fl. (name, fl) \<in> set ex_term_groups
                 \<longleftrightarrow> fl \<noteq> [] \<and> fl = filter (\<lambda>p. path_name (snd p) = name) files"
      and w: "single_config_warnings result
                = concat (map (program_warnings (program_compatibility ex_mapped)) ex_term_groups)"
      and i: "multiple_config_info result
                = concat (map (program_info (program_compatibility ex_mapped)) ex_term_groups)"
    by blast
  from f have fe: "files = ?cf" by simp
  from c fl have mem: "(''eww'', ?fl) \<in> set ex_term_groups" unfolding fe by blast
  have w': "concat (map (program_warnings (program_compatibility ex_mapped)) ex_term_groups)
            = [warning_sign @ ''  ALACRITTY: Alacritty can only load one configuration file.'',
               ''   '' @ light_bulb @ '' Suggestion: Consider using different config names.'',
               ''   Conflicting files:'',
               ''     - hyprland: alacritty.yml'',
               ''     - hyprland: colors.yml'',
               ''     - default: alacritty.yml'']" by code_simp
  have i': "concat (map (program_info (program_compatibility ex_mapped)) ex_term_groups)
            = [info_sign @ ''  EWW: EWW supports multiple configuration files.'',
               ''   '' @ light_bulb @ '' Suggestion: Use --config flag to specify different config files.'']"
    by code_simp
  from r w i w' i' have "\<exists>result.
         check_program_compatibility ex_mapped ex_term ?cf None = Inr result
         \<and> single_config_warnings result
             = [warning_sign @ ''  ALACRITTY: Alacritty can only load one configuration file.'',
                ''   '' @ light_bulb @ '' Suggestion: Consider using different config names.'',
                ''   Conflicting files:'',
                ''     - hyprland: alacritty.yml'',
                ''     - hyprland: colors.yml'',
                ''     - default: alacritty.yml'']
         \<and> multiple_config_info result
             = [info_sign @ ''  EWW: EWW supports multiple configuration files.'',
                ''   '' @ light_bulb @ '' Suggestion: Use --config flag to specify different config files.'']"
    by simp
  with h n l mem show ?thesis by blast
qed

text \<open>
  Claim C4 as stated promises information only, and no warning, for every program
  registered under \<^verbatim>\<open>supports_multiple_configs\<close>. The code tests \<^verbatim>\<open>single_config_only\<close> first
  and \<^verbatim>\<open>supports_multiple_configs\<close> in the \<^verbatim>\<open>elif\<close>: a program that a rule table registers
  under both gets the warning and no information.
\<close>

theorem check_program_compatibility_overlap_counterexample:
  "supports_multiple_configs (program_compatibility ex_overlap) ''alacritty''
     = Some \<lparr>rule_message = ''many files'', rule_suggestion = ''import''\<rparr>
   \<and> check_program_compatibility ex_overlap ex_term
        (get_config_files ex_overlap ex_term [''repo'', ''term'', ''hyprland'']) None
       = Inr \<lparr>single_config_warnings =
                [warning_sign @ ''  ALACRITTY: one file only'',
                 ''   '' @ light_bulb @ '' Suggestion: rename'',
                 ''   Conflicting files:'',
                 ''     - hyprland: alacritty.yml'',
                 ''     - hyprland: colors.yml''],
              multiple_config_info = []\<rparr>"
  by code_simp

section \<open>Properties of the file-system operations\<close>

lemma exists_iff: "exists fs q \<longleftrightarrow> is_dir fs q \<or> read_file fs q \<noteq> None"
  by (auto simp: exists_def is_dir_def read_file_def split: option.splits node.splits)

lemma is_dir_parent: "exists fs (p @ [n]) \<Longrightarrow> is_dir fs p"
  by (auto simp: exists_def is_dir_def lookup_append split: option.splits node.splits)

lemma mkdir_existing: "is_dir fs p \<Longrightarrow> mkdir parents fs p = Inr fs"
proof (induction p arbitrary: fs)
  case Nil
  then show ?case by (cases fs) (auto simp: is_dir_def)
next
  case (Cons n p)
  then obtain es where fs: "fs = Dir es" by (cases fs) (auto simp: is_dir_def)
  with Cons.prems obtain t where t: "map_of es n = Some t" "is_dir t p"
    by (auto simp: is_dir_def split: option.splits)
  from Cons.IH[OF t(2)] t(1) fs show ?case by (simp add: update_triv)
qed

lemma lookup_leaf: "leaf v \<Longrightarrow> r \<noteq> [] \<Longrightarrow> lookup v r = None"
  by (cases v; cases r) (auto simp: leaf_def)

lemma lookup_not_dir: "\<not> is_dir t [] \<Longrightarrow> r \<noteq> [] \<Longrightarrow> lookup t r = None"
  by (cases t; cases r) (auto simp: is_dir_def)

lemma lookup_put:
  assumes "put fs p v = Some fs'" and "leaf v" and "\<not> is_dir fs p"
  shows "read_file fs' q = (if q = p then read_file v [] else read_file fs q)
         \<and> is_dir fs' q = (if q = p then is_dir v [] else is_dir fs q)"
  using assms
proof (induction fs p v arbitrary: fs' q rule: put.induct)
  case (1 t v)
  then show ?case
    by (cases q) (auto simp: read_file_def is_dir_def lookup_leaf lookup_not_dir)
next
  case (2 c n p v)
  then show ?case by simp
next
  case (3 es n v)
  show ?case
  proof (cases q)
    case Nil
    with 3 show ?thesis by (auto simp: read_file_def is_dir_def)
  next
    case (Cons n' r)
    show ?thesis
    proof (cases "n' = n")
      case False
      with 3 Cons show ?thesis by (auto simp: read_file_def is_dir_def update_conv')
    next
      case True
      show ?thesis
      proof (cases "r = []")
        case rn: True
        with 3 Cons True show ?thesis by (auto simp: read_file_def is_dir_def update_conv')
      next
        case rf: False
        have old: "lookup (Dir es) (n # r) = None"
          using 3(3) rf by (cases r) (auto simp: is_dir_def split: option.splits node.splits)
        from 3 Cons True rf old show ?thesis
          by (auto simp: read_file_def is_dir_def update_conv' lookup_leaf)
      qed
    qed
  qed
next
  case (4 es n q' p' v)
  from 4(2) obtain t t' where t: "map_of es n = Some t" "put t (q' # p') v = Some t'"
      "fs' = Dir (AList.update n t' es)"
    by (auto split: option.splits)
  from 4(4) t(1) have nd: "\<not> is_dir t (q' # p')" by (simp add: is_dir_def)
  note IH = 4(1)[OF t(1) t(2) 4(3) nd]
  show ?case
  proof (cases q)
    case Nil
    with t show ?thesis by (auto simp: read_file_def is_dir_def)
  next
    case (Cons n' r)
    show ?thesis
    proof (cases "n' = n")
      case False
      with t Cons show ?thesis by (auto simp: read_file_def is_dir_def update_conv')
    next
      case True
      with t Cons IH[of r] show ?thesis by (auto simp: read_file_def is_dir_def update_conv')
    qed
  qed
qed

lemma put_succeeds: "is_dir fs (path_parent p) \<Longrightarrow> p \<noteq> [] \<Longrightarrow> \<exists>fs'. put fs p v = Some fs'"
proof (induction fs p v rule: put.induct)
  case (4 es n q p v)
  then show ?case by (auto simp: is_dir_def path_parent_def split: option.splits)
qed (auto simp: is_dir_def path_parent_def split: if_splits)

lemma mkdir_is_put:
  "\<not> exists fs p \<Longrightarrow> is_dir fs (path_parent p) \<Longrightarrow> p \<noteq> [] \<Longrightarrow>
     mkdir False fs p = (case put fs p (Dir []) of Some fs' \<Rightarrow> Inr fs' | None \<Rightarrow> Inl FileNotFoundError)"
proof (induction fs p "Dir []" rule: put.induct)
  case (4 es n q p)
  then show ?case
    by (auto simp: is_dir_def exists_def path_parent_def split: option.splits)
qed (auto simp: is_dir_def exists_def path_parent_def split: option.splits if_splits)

lemma next_backup_path_free: "\<not> exists fs (next_backup_path fs backup_dir name backup_path counter)"
  by (induction fs backup_dir name backup_path counter rule: next_backup_path.induct)
    (subst next_backup_path.simps, simp)

lemma next_backup_path_shape:
  "(\<not> exists fs backup_path \<and> next_backup_path fs backup_dir name backup_path counter = backup_path)
   \<or> (exists fs backup_path \<and>
       (\<exists>k \<ge> counter.
          next_backup_path fs backup_dir name backup_path counter = backup_dir @ [suffixed name k]
          \<and> (\<forall>j. counter \<le> j \<and> j < k \<longrightarrow> exists fs (backup_dir @ [suffixed name j]))))"
proof (induction fs backup_dir name backup_path counter rule: next_backup_path.induct)
  case (1 fs backup_dir name backup_path counter)
  show ?case
  proof (cases "exists fs backup_path")
    case False
    then show ?thesis by (subst next_backup_path.simps) simp
  next
    case True
    let ?next = "backup_dir @ [suffixed name counter]"
    from 1[OF True] show ?thesis
    proof
      assume a: "\<not> exists fs ?next
        \<and> next_backup_path fs backup_dir name ?next (counter + 1) = ?next"
      with True show ?thesis
        by (subst next_backup_path.simps, intro disjI2 conjI exI[of _ counter]) auto
    next
      assume "exists fs ?next \<and>
        (\<exists>k \<ge> counter + 1.
           next_backup_path fs backup_dir name ?next (counter + 1) = backup_dir @ [suffixed name k]
           \<and> (\<forall>j. counter + 1 \<le> j \<and> j < k \<longrightarrow> exists fs (backup_dir @ [suffixed name j])))"
      then obtain k where k: "counter + 1 \<le> k" "exists fs ?next"
        "next_backup_path fs backup_dir name ?next (counter + 1) = backup_dir @ [suffixed name k]"
        "\<forall>j. counter + 1 \<le> j \<and> j < k \<longrightarrow> exists fs (backup_dir @ [suffixed name j])"
        by blast
      have "\<forall>j. counter \<le> j \<and> j < k \<longrightarrow> exists fs (backup_dir @ [suffixed name j])"
      proof (intro allI impI)
        fix j assume "counter \<le> j \<and> j < k"
        then show "exists fs (backup_dir @ [suffixed name j])"
          using k(2,4) by (cases "j = counter") auto
      qed
      with True k show ?thesis
        by (subst next_backup_path.simps, intro disjI2 conjI exI[of _ k]) auto
    qed
  qed
qed

lemma copy2_writes:
  assumes "read_file fs src = Some c" and "\<not> is_dir fs dst" and "is_dir fs (path_parent dst)"
    and "dst \<noteq> []" and "dst \<noteq> src"
  shows "\<exists>fs'. copy2 fs src dst = Some fs'
           \<and> (\<forall>q. read_file fs' q = (if q = dst then Some c else read_file fs q))
           \<and> (\<forall>q. is_dir fs' q = is_dir fs q)"
proof -
  from put_succeeds[OF assms(3,4), of "File c"] obtain fs' where p: "put fs dst (File c) = Some fs'"
    by blast
  have l: "leaf (File c)" by (simp add: leaf_def)
  from assms(1) have "lookup fs src = Some (File c)"
    by (auto simp: read_file_def split: option.splits node.splits)
  then have "copy2 fs src dst = Some fs'"
    using assms p by (simp add: copy2_def)
  moreover from lookup_put[OF p l assms(2)] assms(2)
  have "\<forall>q. read_file fs' q = (if q = dst then Some c else read_file fs q)"
    and "\<forall>q. is_dir fs' q = is_dir fs q"
    by (auto simp: read_file_def is_dir_def)
  ultimately show ?thesis by blast
qed

lemma mkdir_backup_dir:
  assumes "is_dir fs backup_dir
           \<or> (create \<and> \<not> exists fs backup_dir \<and> is_dir fs (path_parent backup_dir) \<and> backup_dir \<noteq> [])"
  shows "\<exists>fs1. (if create then mkdir False fs backup_dir else Inr fs) = Inr fs1
           \<and> is_dir fs1 backup_dir
           \<and> (\<forall>q. read_file fs1 q = read_file fs q)
           \<and> (\<forall>q. is_dir fs1 q = (is_dir fs q \<or> q = backup_dir))"
proof (cases "is_dir fs backup_dir")
  case True
  then show ?thesis by (auto simp: mkdir_existing)
next
  case False
  with assms have c: create and ne: "\<not> exists fs backup_dir"
    and pd: "is_dir fs (path_parent backup_dir)" and nn: "backup_dir \<noteq> []" by auto
  from put_succeeds[OF pd nn, of "Dir []"] obtain fs1 where p: "put fs backup_dir (Dir []) = Some fs1"
    by blast
  have l: "leaf (Dir [])" by (simp add: leaf_def)
  from mkdir_is_put[OF ne pd nn] p have m: "mkdir False fs backup_dir = Inr fs1" by simp
  from lookup_put[OF p l False] ne
  have "\<forall>q. read_file fs1 q = read_file fs q" and "\<forall>q. is_dir fs1 q = (is_dir fs q \<or> q = backup_dir)"
    by (auto simp: read_file_def is_dir_def exists_def)
  with c m show ?thesis by auto
qed

section \<open>Properties of the backup\<close>

lemma path_parent_snoc [simp]: "path_parent (p @ [n]) = p"
  by (simp add: path_parent_def)

lemma backup_existing_backs_up:
  assumes be: "get_flag (cfg_backup_existing (config m)) True"
    and old: "read_file fs target_path = Some old"
    and dir: "is_dir fs (home m @ [''.config_backup''])
              \<or> (get_flag (cfg_create_backup_dir (config m)) True
                  \<and> \<not> exists fs (home m @ [''.config_backup'']) \<and> is_dir fs (home m))"
  shows "\<exists>nm fs'.
           backup_existing m fs target_path = Inr (True, fs')
           \<and> \<not> exists fs (home m @ [''.config_backup'', nm])
           \<and> (if exists fs (home m @ [''.config_backup'', path_name target_path])
               then \<exists>k \<ge> 1. nm = suffixed (path_name target_path) k
                      \<and> (\<forall>j. 1 \<le> j \<and> j < k \<longrightarrow>
                            exists fs (home m @ [''.config_backup'', suffixed (path_name target_path) j]))
               else nm = path_name target_path)
           \<and> (\<forall>q. read_file fs' q
                   = (if q = home m @ [''.config_backup'', nm] then Some old else read_file fs q))
           \<and> (\<forall>q. is_dir fs' q = (is_dir fs q \<or> q = home m @ [''.config_backup'']))"
proof -
  let ?bd = "home m @ [''.config_backup'']"
  let ?name = "path_name target_path"
  let ?create = "get_flag (cfg_create_backup_dir (config m)) True"
  have ex: "exists fs target_path" using old by (simp add: exists_iff)
  from dir have "is_dir fs ?bd \<or> (?create \<and> \<not> exists fs ?bd \<and> is_dir fs (path_parent ?bd) \<and> ?bd \<noteq> [])"
    by auto
  from mkdir_backup_dir[OF this] obtain fs1
    where m1: "(if ?create then mkdir False fs ?bd else Inr fs) = Inr fs1"
      and d1: "is_dir fs1 ?bd"
      and r1: "\<forall>q. read_file fs1 q = read_file fs q"
      and i1: "\<forall>q. is_dir fs1 q = (is_dir fs q \<or> q = ?bd)" by blast
  have e1: "\<And>q. exists fs1 q = (exists fs q \<or> q = ?bd)"
    using r1 i1 by (auto simp: exists_iff)
  have child: "\<And>n. exists fs1 (home m @ [''.config_backup'', n]) = exists fs (home m @ [''.config_backup'', n])"
    using e1 by auto
  let ?bp = "next_backup_path fs1 ?bd ?name (?bd @ [?name]) 1"
  have free1: "\<not> exists fs1 ?bp" by (rule next_backup_path_free)
  have "\<exists>nm. ?bp = ?bd @ [nm]
          \<and> (if exists fs (home m @ [''.config_backup'', ?name])
               then \<exists>k \<ge> 1. nm = suffixed ?name k
                      \<and> (\<forall>j. 1 \<le> j \<and> j < k \<longrightarrow> exists fs (home m @ [''.config_backup'', suffixed ?name j]))
               else nm = ?name)"
  proof (cases "exists fs1 (?bd @ [?name])")
    case False
    with next_backup_path_shape[of fs1 "?bd @ [?name]" ?bd ?name 1]
    have "?bp = ?bd @ [?name]" by blast
    moreover from False have "\<not> exists fs (home m @ [''.config_backup'', ?name])"
      by (simp add: child)
    ultimately show ?thesis by simp
  next
    case True
    with next_backup_path_shape[of fs1 "?bd @ [?name]" ?bd ?name 1]
    obtain k where k: "1 \<le> k" "?bp = ?bd @ [suffixed ?name k]"
      "\<forall>j. 1 \<le> j \<and> j < k \<longrightarrow> exists fs1 (?bd @ [suffixed ?name j])" by blast
    from k(3) have "\<forall>j. 1 \<le> j \<and> j < k \<longrightarrow> exists fs (home m @ [''.config_backup'', suffixed ?name j])"
      by (simp add: child)
    moreover from True have "exists fs (home m @ [''.config_backup'', ?name])"
      by (simp add: child)
    ultimately show ?thesis using k(1,2) by auto
  qed
  then obtain nm where nm: "?bp = ?bd @ [nm]"
    and shape: "if exists fs (home m @ [''.config_backup'', ?name])
               then \<exists>k \<ge> 1. nm = suffixed ?name k
                      \<and> (\<forall>j. 1 \<le> j \<and> j < k \<longrightarrow> exists fs (home m @ [''.config_backup'', suffixed ?name j]))
               else nm = ?name"
    by blast
  have free: "\<not> exists fs (?bd @ [nm])" using free1 nm child by simp
  have nd: "\<not> is_dir fs1 ?bp" using free1 by (simp add: exists_iff)
  have pd: "is_dir fs1 (path_parent ?bp)" using nm d1 by (simp add: path_parent_def butlast_append)
  have ne: "?bp \<noteq> []" using nm by simp
  have ns: "?bp \<noteq> target_path"
  proof
    assume "?bp = target_path"
    with free1 have "\<not> exists fs1 target_path" by simp
    with ex e1[of target_path] show False by simp
  qed
  from old r1 have old1: "read_file fs1 target_path = Some old" by simp
  from copy2_writes[OF old1 nd pd ne ns] obtain fs2
    where c: "copy2 fs1 target_path ?bp = Some fs2"
      and r2: "\<forall>q. read_file fs2 q = (if q = ?bp then Some old else read_file fs1 q)"
      and i2: "\<forall>q. is_dir fs2 q = is_dir fs1 q" by blast
  have res: "backup_existing m fs target_path = Inr (True, fs2)"
    unfolding backup_existing_def Let_def
    by (simp only: ex be m1 c simp_thms if_True if_False sum.case option.case)
  have bdn: "?bd @ [nm] = home m @ [''.config_backup'', nm]" by simp
  have rf: "\<forall>q. read_file fs2 q
             = (if q = home m @ [''.config_backup'', nm] then Some old else read_file fs q)"
  proof
    fix q
    from r2 have "read_file fs2 q = (if q = ?bp then Some old else read_file fs1 q)" by blast
    also have "\<dots> = (if q = ?bd @ [nm] then Some old else read_file fs q)"
      unfolding nm using r1 by simp
    finally show "read_file fs2 q
             = (if q = home m @ [''.config_backup'', nm] then Some old else read_file fs q)"
      unfolding bdn .
  qed
  have idr: "\<forall>q. is_dir fs2 q = (is_dir fs q \<or> q = ?bd)"
    using i2 i1 by simp
  have free': "\<not> exists fs (home m @ [''.config_backup'', nm])" using free unfolding bdn .
  from res free' shape rf idr show ?thesis by blast
qed

text \<open>
  Claim C6, as amended. Outside dry-run mode and with backups enabled, installing a source
  file over a regular file that exists at the destination, when the backup directory
  \<^verbatim>\<open>~/.config_backup\<close> is a directory or can be created (it is absent, its creation is
  enabled and the home directory exists), succeeds and copies the existing content into
  the backup directory under a name that was free there: the original file name when that
  is free, and otherwise the original name with the suffix \<^verbatim>\<open>.k\<close> for the least \<open>k \<ge> 1\<close> whose
  name is free. The destination then holds the source's content, and no other file
  changes: no earlier backup is overwritten and exactly one backup file is new.
\<close>

theorem install_config_backs_up_existing:
  assumes nd: "\<not> get_flag (cfg_dry_run (config m)) False"
    and be: "get_flag (cfg_backup_existing (config m)) True"
    and old: "read_file fs (target_dir @ [path_name source_path]) = Some old"
    and new: "read_file fs source_path = Some new"
    and diff: "source_path \<noteq> target_dir @ [path_name source_path]"
    and dir: "is_dir fs (home m @ [''.config_backup''])
              \<or> (get_flag (cfg_create_backup_dir (config m)) True
                  \<and> \<not> exists fs (home m @ [''.config_backup'']) \<and> is_dir fs (home m))"
  shows "\<exists>nm fs'.
           install_config m fs source_path target_dir = Inr (True, fs')
           \<and> \<not> exists fs (home m @ [''.config_backup'', nm])
           \<and> (if exists fs (home m @ [''.config_backup'', path_name source_path])
               then \<exists>k \<ge> 1. nm = suffixed (path_name source_path) k
                      \<and> (\<forall>j. 1 \<le> j \<and> j < k \<longrightarrow>
                            exists fs (home m @ [''.config_backup'', suffixed (path_name source_path) j]))
               else nm = path_name source_path)
           \<and> read_file fs' (home m @ [''.config_backup'', nm]) = Some old
           \<and> read_file fs' (target_dir @ [path_name source_path]) = Some new
           \<and> (\<forall>q. q \<noteq> home m @ [''.config_backup'', nm] \<and> q \<noteq> target_dir @ [path_name source_path]
                  \<longrightarrow> read_file fs' q = read_file fs q)"
proof -
  let ?tp = "target_dir @ [path_name source_path]"
  let ?bd = "home m @ [''.config_backup'']"
  have tn: "path_name ?tp = path_name source_path" by simp
  have ex: "exists fs ?tp" using old by (simp add: exists_iff)
  have td: "is_dir fs target_dir" using ex by (rule is_dir_parent)
  have mk: "mkdir True fs (path_parent ?tp) = Inr fs"
    using mkdir_existing[OF td, of True] by simp
  from backup_existing_backs_up[OF be old dir] obtain nm fs2
    where b: "backup_existing m fs ?tp = Inr (True, fs2)"
      and free: "\<not> exists fs (home m @ [''.config_backup'', nm])"
      and shape: "if exists fs (home m @ [''.config_backup'', path_name source_path])
               then \<exists>k \<ge> 1. nm = suffixed (path_name source_path) k
                      \<and> (\<forall>j. 1 \<le> j \<and> j < k \<longrightarrow>
                            exists fs (home m @ [''.config_backup'', suffixed (path_name source_path) j]))
               else nm = path_name source_path"
      and r2: "\<forall>q. read_file fs2 q
                   = (if q = home m @ [''.config_backup'', nm] then Some old else read_file fs q)"
      and i2: "\<forall>q. is_dir fs2 q = (is_dir fs q \<or> q = ?bd)"
    unfolding tn by blast
  let ?bp = "home m @ [''.config_backup'', nm]"
  have sb: "source_path \<noteq> ?bp"
  proof
    assume "source_path = ?bp"
    with free have "\<not> exists fs source_path" by simp
    with new show False by (simp add: exists_iff)
  qed
  have tb: "?tp \<noteq> ?bp"
  proof
    assume "?tp = ?bp"
    with free have "\<not> exists fs ?tp" by simp
    with ex show False by simp
  qed
  have tbd: "?tp \<noteq> ?bd"
  proof
    assume e: "?tp = ?bd"
    from old have "\<not> is_dir fs ?tp"
      by (auto simp: read_file_def is_dir_def split: option.splits node.splits)
    with dir ex show False unfolding e by blast
  qed
  have new2: "read_file fs2 source_path = Some new" using r2 sb new by simp
  have nd2: "\<not> is_dir fs2 ?tp"
  proof -
    from old have "\<not> is_dir fs ?tp"
      by (auto simp: read_file_def is_dir_def split: option.splits node.splits)
    with i2 tbd show ?thesis by simp
  qed
  have pd2: "is_dir fs2 (path_parent ?tp)" using i2 td by simp
  have ne: "?tp \<noteq> []" by simp
  from copy2_writes[OF new2 nd2 pd2 ne diff[symmetric]] obtain fs3
    where c: "copy2 fs2 source_path ?tp = Some fs3"
      and r3: "\<forall>q. read_file fs3 q = (if q = ?tp then Some new else read_file fs2 q)"
    by blast
  have res: "install_config m fs source_path target_dir = Inr (True, fs3)"
    unfolding install_config_def Let_def
    by (simp only: nd mk b c simp_thms if_True if_False sum.case option.case prod.case)
  have bk: "read_file fs3 ?bp = Some old"
    by (simp only: r3 r2 tb[symmetric] if_False if_True simp_thms)
  have tg: "read_file fs3 ?tp = Some new"
    by (simp only: r3 if_True simp_thms)
  have fr: "\<forall>q. q \<noteq> ?bp \<and> q \<noteq> ?tp \<longrightarrow> read_file fs3 q = read_file fs q"
  proof (intro allI impI)
    fix q assume q: "q \<noteq> ?bp \<and> q \<noteq> ?tp"
    then have a: "q \<noteq> ?bp" and b: "q \<noteq> ?tp" by blast+
    show "read_file fs3 q = read_file fs q"
      by (simp only: r3 r2 a b if_False simp_thms)
  qed
  from res free shape bk tg fr show ?thesis by blast
qed

theorem install_config_backs_up_existing_witness:
  "\<not> get_flag (cfg_dry_run (config ex_manager)) False
   \<and> get_flag (cfg_backup_existing (config ex_manager)) True
   \<and> read_file ex_backed_up
        ([''home'', ''u'', ''.config'', ''bar''] @ [path_name [''repo'', ''bar'', ''default'', ''bar.conf'']])
       = Some ''new''
   \<and> is_dir ex_backed_up (home ex_manager @ [''.config_backup''])
   \<and> exists ex_backed_up (home ex_manager @ [''.config_backup'', ''bar.conf''])
   \<and> (\<exists>nm fs'.
         install_config ex_manager ex_backed_up [''repo'', ''bar'', ''default'', ''bar.conf'']
           [''home'', ''u'', ''.config'', ''bar''] = Inr (True, fs')
         \<and> \<not> exists ex_backed_up (home ex_manager @ [''.config_backup'', nm])
         \<and> nm = ''bar.conf.1''
         \<and> read_file fs' (home ex_manager @ [''.config_backup'', nm]) = Some ''new''
         \<and> read_file fs' (home ex_manager @ [''.config_backup'', ''bar.conf'']) = Some ''old'')"
proof -
  let ?src = "[''repo'', ''bar'', ''default'', ''bar.conf'']"
  let ?tgt = "[''home'', ''u'', ''.config'', ''bar'']"
  have nd: "\<not> get_flag (cfg_dry_run (config ex_manager)) False" by code_simp
  have be: "get_flag (cfg_backup_existing (config ex_manager)) True" by code_simp
  have old: "read_file ex_backed_up (?tgt @ [path_name ?src]) = Some ''new''" by code_simp
  have new: "read_file ex_backed_up ?src = Some ''new''" by code_simp
  have diff: "?src \<noteq> ?tgt @ [path_name ?src]" by simp
  have d: "is_dir ex_backed_up (home ex_manager @ [''.config_backup''])" by code_simp
  have e: "exists ex_backed_up (home ex_manager @ [''.config_backup'', ''bar.conf''])" by code_simp
  have e1: "\<not> exists ex_backed_up (home ex_manager @ [''.config_backup'', suffixed ''bar.conf'' 1])"
    by code_simp
  have pn: "path_name ?src = ''bar.conf''" by code_simp
  have s1: "suffixed ''bar.conf'' 1 = ''bar.conf.1''" by code_simp
  have keep: "read_file ex_backed_up (home ex_manager @ [''.config_backup'', ''bar.conf'']) = Some ''old''"
    by code_simp
  from install_config_backs_up_existing[OF nd be old new diff disjI1[OF d]]
  obtain nm fs' where r: "install_config ex_manager ex_backed_up ?src ?tgt = Inr (True, fs')"
    and free: "\<not> exists ex_backed_up (home ex_manager @ [''.config_backup'', nm])"
    and shape: "\<exists>k \<ge> 1. nm = suffixed ''bar.conf'' k
                  \<and> (\<forall>j. 1 \<le> j \<and> j < k \<longrightarrow>
                        exists ex_backed_up (home ex_manager @ [''.config_backup'', suffixed ''bar.conf'' j]))"
    and bk: "read_file fs' (home ex_manager @ [''.config_backup'', nm]) = Some ''new''"
    and fr: "\<forall>q. q \<noteq> home ex_manager @ [''.config_backup'', nm] \<and> q \<noteq> ?tgt @ [path_name ?src]
                  \<longrightarrow> read_file fs' q = read_file ex_backed_up q"
    unfolding pn using e by (auto simp only: if_True)
  from shape obtain k where k: "1 \<le> k" "nm = suffixed ''bar.conf'' k"
    "\<forall>j. 1 \<le> j \<and> j < k \<longrightarrow>
        exists ex_backed_up (home ex_manager @ [''.config_backup'', suffixed ''bar.conf'' j])"
    by blast
  have "k = 1"
  proof (rule ccontr)
    assume "k \<noteq> 1"
    with k(1) have "1 \<le> (1::nat) \<and> 1 < k" by simp
    with k(3) e1 show False by blast
  qed
  with k(2) s1 have nm: "nm = ''bar.conf.1''" by simp
  have ne1: "home ex_manager @ [''.config_backup'', ''bar.conf'']
               \<noteq> home ex_manager @ [''.config_backup'', nm]" unfolding nm by simp
  have ne2: "home ex_manager @ [''.config_backup'', ''bar.conf''] \<noteq> ?tgt @ [path_name ?src]"
    by code_simp
  from fr ne1 ne2 keep
  have kept: "read_file fs' (home ex_manager @ [''.config_backup'', ''bar.conf'']) = Some ''old''"
    by metis
  from nd be old d e r free nm bk kept show ?thesis by blast
qed

text \<open>
  Claim C6 as stated names every backup with a numeric suffix that starts at 1. The code
  tries the original file name first: the first backup of \<^verbatim>\<open>bar.conf\<close> is
  \<^verbatim>\<open>~/.config_backup/bar.conf\<close>, and no \<^verbatim>\<open>bar.conf.1\<close> exists after it.
\<close>

theorem first_backup_unsuffixed_counterexample:
  "exists ex_installed [''home'', ''u'', ''.config'', ''bar'', ''bar.conf'']
   \<and> get_flag (cfg_backup_existing (config ex_manager)) True
   \<and> install_config ex_manager ex_installed [''repo'', ''bar'', ''default'', ''bar.conf'']
        [''home'', ''u'', ''.config'', ''bar''] = Inr (True, ex_backed_up)
   \<and> read_file ex_backed_up [''home'', ''u'', ''.config_backup'', ''bar.conf''] = Some ''old''
   \<and> \<not> exists ex_backed_up [''home'', ''u'', ''.config_backup'', ''bar.conf.1'']"
  by code_simp

section \<open>Properties of the installation loop\<close>

text \<open>
  The loop of \<^verbatim>\<open>install_widget\<close> has no early exit of its own: whenever it returns, every
  pair has been attempted in turn, and it reports success exactly when it started from
  success and every attempt returned success.
\<close>

lemma install_files_returns:
  "install_files m pairs success fs = Inr (ok, fs') \<Longrightarrow>
     \<exists>oks. attempts m pairs fs oks fs' \<and> length oks = length pairs
           \<and> ok = (success \<and> (\<forall>b \<in> set oks. b))"
proof (induction pairs arbitrary: success fs)
  case Nil
  then show ?case by (auto intro: attempts_Nil)
next
  case (Cons pair pairs)
  obtain s t where pair: "pair = (s, t)" by (cases pair)
  from Cons.prems pair obtain r fs1 where r: "install_config m fs s t = Inr (r, fs1)"
    and rest: "install_files m pairs (if \<not> r then False else success) fs1 = Inr (ok, fs')"
    by (auto split: sum.splits)
  from Cons.IH[OF rest] obtain oks where oks: "attempts m pairs fs1 oks fs'"
    "length oks = length pairs" "ok = ((if \<not> r then False else success) \<and> (\<forall>b \<in> set oks. b))"
    by blast
  from attempts_Cons[OF r oks(1)] oks(2,3) pair show ?case
    by (intro exI[of _ "r # oks"]) auto
qed

text \<open>
  Claim C8 at a failing input. The directory creation of \<^verbatim>\<open>install_config\<close> is outside
  its \<^verbatim>\<open>try\<close>: where the target directory of the first file exists as a regular file,
  \<^verbatim>\<open>mkdir\<close> raises, the exception leaves \<^verbatim>\<open>install_widget\<close>, and the second file, whose
  installation on its own succeeds, is never attempted.
\<close>

theorem install_widget_mkdir_raises:
  "get_config_files ex_manager ex_blocked [''repo'', ''bar'', ''default'']
     = [([''repo'', ''bar'', ''default'', ''a.conf''], [''home'', ''u'', ''.config'', ''a'']),
        ([''repo'', ''bar'', ''default'', ''b.conf''], [''home'', ''u'', ''.config'', ''b''])]
   \<and> install_config ex_manager ex_blocked [''repo'', ''bar'', ''default'', ''a.conf'']
         [''home'', ''u'', ''.config'', ''a''] = Inl FileExistsError
   \<and> map_sum id fst (install_config ex_manager ex_blocked [''repo'', ''bar'', ''default'', ''b.conf'']
         [''home'', ''u'', ''.config'', ''b'']) = Inr True
   \<and> install_widget ex_manager ex_blocked ''bar'' [] False = Inl FileExistsError"
  by code_simp

section \<open>Properties of the repository registry\<close>

lemma split_on_nonempty: "split_on sep s \<noteq> []"
  by (induction s) (auto split: list.splits)

lemma split_on_append: "split_on sep (a @ sep # b) = split_on sep a @ split_on sep b"
  by (induction a) (auto split: list.splits simp: split_on_nonempty)

lemma split_on_none: "sep \<notin> set a \<Longrightarrow> split_on sep a = [a]"
  by (induction a) auto

lemma split_on_join:
  "xs \<noteq> [] \<Longrightarrow> \<forall>x \<in> set xs. sep \<notin> set x \<Longrightarrow> split_on sep (join [sep] xs) = xs"
proof (induction "[sep]" xs rule: join.induct)
  case 1
  then show ?case by simp
next
  case (2 x)
  then show ?case by (simp add: split_on_none)
next
  case (3 x y ys)
  then show ?case by (simp add: split_on_append split_on_none)
qed

lemma dropWhile_id_iff: "dropWhile P xs = xs \<longleftrightarrow> xs = [] \<or> \<not> P (hd xs)"
proof (cases xs)
  case Nil
  then show ?thesis by simp
next
  case (Cons x xs')
  have "length (dropWhile P xs') \<le> length xs'" by (rule length_dropWhile_le)
  then have "dropWhile P xs' \<noteq> x # xs'" by (metis impossible_Cons)
  with Cons show ?thesis by auto
qed

lemma strip_id_iff: "strip s = s \<longleftrightarrow> s = [] \<or> (\<not> is_space (hd s) \<and> \<not> is_space (last s))"
proof (cases "s = []")
  case True
  then show ?thesis by (simp add: strip_def)
next
  case False
  show ?thesis
  proof (cases "is_space (hd s)")
    case True
    with False have "length (dropWhile is_space s) < length s"
      by (cases s) (auto simp: le_imp_less_Suc length_dropWhile_le)
    moreover have "length (strip s) \<le> length (dropWhile is_space s)"
      unfolding strip_def using length_dropWhile_le[of is_space "rev (dropWhile is_space s)"] by simp
    ultimately have "strip s \<noteq> s" by auto
    with True False show ?thesis by simp
  next
    case nh: False
    then have d: "dropWhile is_space s = s" by (simp add: dropWhile_id_iff)
    have "strip s = s \<longleftrightarrow> dropWhile is_space (rev s) = rev s"
      unfolding strip_def d by (metis rev_rev_ident)
    also have "\<dots> \<longleftrightarrow> \<not> is_space (last s)"
      using False by (simp add: dropWhile_id_iff hd_rev)
    finally show ?thesis using False nh by simp
  qed
qed

lemma universal_newlines_CRLF:
  "universal_newlines (CHR 0x0D # CHR 0x0A # s) = CHR 0x0A # universal_newlines s"
  by simp

lemma universal_newlines_CR:
  "s = [] \<or> hd s \<noteq> CHR 0x0A \<Longrightarrow>
     universal_newlines (CHR 0x0D # s) = CHR 0x0A # universal_newlines s"
  by (cases s) auto

lemma universal_newlines_other:
  "c \<noteq> CHR 0x0D \<Longrightarrow> universal_newlines (c # s) = c # universal_newlines s"
  by simp

lemma universal_newlines_plain: "CHR 0x0D \<notin> set s \<Longrightarrow> universal_newlines s = s"
  by (induction s) (auto simp: universal_newlines_other simp del: universal_newlines.simps(2))

lemma universal_newlines_append:
  "universal_newlines (a @ CHR 0x0A # b) = universal_newlines (a @ [CHR 0x0A]) @ universal_newlines b"
proof (induction a rule: length_induct)
  case (1 a)
  show ?case
  proof (cases a)
    case Nil
    then show ?thesis by (simp add: universal_newlines_other del: universal_newlines.simps(2))
  next
    case (Cons c cs)
    show ?thesis
    proof (cases "c = CHR 0x0D")
      case False
      from 1 Cons have "universal_newlines (cs @ CHR 0x0A # b)
          = universal_newlines (cs @ [CHR 0x0A]) @ universal_newlines b" by simp
      with False Cons show ?thesis
        by (simp add: universal_newlines_other del: universal_newlines.simps(2))
    next
      case True
      show ?thesis
      proof (cases cs)
        case Nil
        with True Cons show ?thesis
          by (simp add: universal_newlines_CRLF del: universal_newlines.simps(2))
      next
        case cs: (Cons d ds)
        show ?thesis
        proof (cases "d = CHR 0x0A")
          case dt: True
          from 1 Cons cs have "universal_newlines (ds @ CHR 0x0A # b)
              = universal_newlines (ds @ [CHR 0x0A]) @ universal_newlines b" by simp
          with True Cons cs dt show ?thesis
            by (simp add: universal_newlines_CRLF del: universal_newlines.simps(2))
        next
          case df: False
          from 1 Cons have ih: "universal_newlines (cs @ CHR 0x0A # b)
              = universal_newlines (cs @ [CHR 0x0A]) @ universal_newlines b" by simp
          have x: "universal_newlines (CHR 0x0D # cs @ CHR 0x0A # b)
                     = CHR 0x0A # universal_newlines (cs @ CHR 0x0A # b)"
            using cs df by (intro universal_newlines_CR) simp
          have y: "universal_newlines (CHR 0x0D # cs @ [CHR 0x0A])
                     = CHR 0x0A # universal_newlines (cs @ [CHR 0x0A])"
            using cs df by (intro universal_newlines_CR) simp
          from True Cons x y ih show ?thesis
            by (simp del: universal_newlines.simps(2))
        qed
      qed
    qed
  qed
qed

lemma universal_newlines_snoc: "\<exists>u. universal_newlines (a @ [CHR 0x0A]) = u @ [CHR 0x0A]"
proof (induction a rule: length_induct)
  case (1 a)
  show ?case
  proof (cases a)
    case Nil
    then show ?thesis by (simp add: universal_newlines_other del: universal_newlines.simps(2))
  next
    case (Cons c cs)
    from 1 Cons obtain u where u: "universal_newlines (cs @ [CHR 0x0A]) = u @ [CHR 0x0A]"
      by auto
    show ?thesis
    proof (cases "c = CHR 0x0D")
      case False
      with Cons u show ?thesis
        by (simp add: universal_newlines_other del: universal_newlines.simps(2))
    next
      case True
      show ?thesis
      proof (cases cs)
        case Nil
        with True Cons show ?thesis
          by (simp add: universal_newlines_CRLF del: universal_newlines.simps(2))
      next
        case cs: (Cons d ds)
        show ?thesis
        proof (cases "d = CHR 0x0A")
          case dt: True
          have "length ds < length a" using Cons cs by simp
          with 1 obtain v where "universal_newlines (ds @ [CHR 0x0A]) = v @ [CHR 0x0A]"
            by blast
          with True Cons cs dt show ?thesis
            by (simp add: universal_newlines_CRLF del: universal_newlines.simps(2))
        next
          case df: False
          have "universal_newlines (CHR 0x0D # cs @ [CHR 0x0A])
                     = CHR 0x0A # universal_newlines (cs @ [CHR 0x0A])"
            using cs df by (intro universal_newlines_CR) simp
          with True Cons u show ?thesis by (simp del: universal_newlines.simps(2))
        qed
      qed
    qed
  qed
qed

lemma file_lines_snoc:
  assumes "CHR 0x0A \<notin> set l" and "CHR 0x0D \<notin> set l"
  shows "file_lines (p @ CHR 0x0A # l @ [CHR 0x0A]) = file_lines (p @ [CHR 0x0A]) @ [l]"
proof -
  obtain u where u: "universal_newlines (p @ [CHR 0x0A]) = u @ [CHR 0x0A]"
    using universal_newlines_snoc by blast
  have ul: "universal_newlines (l @ [CHR 0x0A]) = l @ [CHR 0x0A]"
    using assms(2) by (simp add: universal_newlines_plain)
  have "universal_newlines (p @ CHR 0x0A # l @ [CHR 0x0A]) = u @ CHR 0x0A # l @ [CHR 0x0A]"
    using universal_newlines_append[of p "l @ [CHR 0x0A]"] u ul by simp
  then have a: "split_on (CHR 0x0A) (universal_newlines (p @ CHR 0x0A # l @ [CHR 0x0A]))
           = split_on (CHR 0x0A) u @ [l, []]"
    using assms(1) by (simp add: split_on_append split_on_none)
  have b: "split_on (CHR 0x0A) (universal_newlines (p @ [CHR 0x0A])) = split_on (CHR 0x0A) u @ [[]]"
    using split_on_append[of "CHR 0x0A" u "[]"] u by simp
  show ?thesis
    unfolding file_lines_def a b by (simp add: Let_def butlast_append)
qed

lemma set_join: "set (join sep xs) \<subseteq> set sep \<union> \<Union> (set ` set xs)"
  by (induction sep xs rule: join.induct) auto

lemma plain_tags_chars:
  assumes "plain_tags tags"
  shows "CHR ''|'' \<notin> set (join '','' tags)" "CHR 0x0A \<notin> set (join '','' tags)"
    "CHR 0x0D \<notin> set (join '','' tags)"
  using assms set_join[of "'',''" tags] by (auto simp: plain_tags_def)

lemma repo_line_entry:
  "repo_line r = entry_line (repo_name r) (repo_url r) (repo_description r) (repo_tags r) @ [CHR 0x0A]"
  by (simp add: repo_line_def entry_line_def)

lemma entry_line_chars:
  assumes "plain name" "plain url" "plain description" "plain_tags tags"
  shows "CHR 0x0A \<notin> set (entry_line name url description tags)"
    and "CHR 0x0D \<notin> set (entry_line name url description tags)"
  using assms plain_tags_chars[OF assms(4)] by (auto simp: entry_line_def plain_def)

lemma not_space_bar: "\<not> is_space CHR ''|''"
  by code_simp

lemma parse_entry_line:
  assumes n: "plain name" and u: "plain url" and d: "plain description" and t: "plain_tags tags"
    and h: "\<not> startswith name ''#''"
  shows "parse_repo_line (k, entry_line name url description tags)
           = [\<lparr>repo_name = name, repo_url = url, repo_description = description,
               repo_tags = tags, line_number = Some k\<rparr>]"
proof -
  let ?ts = "join '','' tags"
  let ?l = "entry_line name url description tags"
  note tc = plain_tags_chars[OF t]
  have ne: "?l \<noteq> []" by (simp add: entry_line_def)
  have hd: "\<not> is_space (hd ?l)"
    using n by (cases name) (auto simp: entry_line_def plain_def strip_id_iff not_space_bar)
  have "strip ?ts = ?ts" using t by (simp add: plain_tags_def)
  then have "?ts = [] \<or> \<not> is_space (last ?ts)" using strip_id_iff[of ?ts] by blast
  then have la: "\<not> is_space (last ?l)"
    by (auto simp: entry_line_def not_space_bar)
  have st: "strip ?l = ?l" using ne hd la by (simp add: strip_id_iff)
  have nh: "\<not> startswith ?l ''#''"
    using h by (cases name) (auto simp: entry_line_def)
  have sp: "split_on CHR ''|'' ?l = [name, url, description, ?ts]"
    using n u d tc(1)
    by (simp add: entry_line_def plain_def split_on_append split_on_none)
  have tg: "split_on CHR '','' ?ts = tags"
    using t split_on_join[of tags "CHR '',''"] by (simp add: plain_tags_def)
  have s1: "strip name = name" "strip url = url" "strip description = description" "strip ?ts = ?ts"
    using n u d t by (simp_all add: plain_def plain_tags_def)
  show ?thesis
    by (simp add: parse_repo_line_def st ne nh sp s1 tg Let_def)
qed

lemma registry_text_ends:
  "\<exists>p. registry_header @ concat (map repo_line repos) = p @ [CHR 0x0A]"
proof (cases repos rule: rev_cases)
  case Nil
  then show ?thesis by (simp add: registry_header_def)
next
  case (snoc rs r)
  then show ?thesis by (simp add: repo_line_entry)
qed

lemma write_text_read:
  assumes "write_text fs p content = Some fs'"
  shows "read_file fs' p = Some content"
proof -
  from assms have nd: "\<not> is_dir fs p" and pt: "put fs p (File content) = Some fs'"
    by (auto simp: write_text_def split: if_splits)
  have "leaf (File content)" by (simp add: leaf_def)
  from lookup_put[OF pt this nd, of p] show ?thesis by (simp add: read_file_def)
qed

lemma load_after_save:
  assumes w: "save_repo_list m fs (repos @ [new]) = (True, fs')"
    and n: "plain (repo_name new)" and u: "plain (repo_url new)"
    and d: "plain (repo_description new)" and t: "plain_tags (repo_tags new)"
    and h: "\<not> startswith (repo_name new) ''#''"
  shows "\<exists>r \<in> set (load_repo_list m fs').
           repo_name r = repo_name new \<and> repo_url r = repo_url new
           \<and> repo_description r = repo_description new \<and> repo_tags r = repo_tags new"
proof -
  let ?l = "entry_line (repo_name new) (repo_url new) (repo_description new) (repo_tags new)"
  let ?content = "registry_header @ concat (map repo_line (repos @ [new]))"
  from w have wt: "write_text fs (repo_list_file m) ?content = Some fs'"
    by (auto simp: save_repo_list_def split: option.splits)
  from write_text_read[OF wt] have rd: "read_file fs' (repo_list_file m) = Some ?content" .
  then have ex: "exists fs' (repo_list_file m)" by (simp add: exists_iff)
  obtain p where p: "registry_header @ concat (map repo_line repos) = p @ [CHR 0x0A]"
    using registry_text_ends by blast
  have "?content = (registry_header @ concat (map repo_line repos)) @ ?l @ [CHR 0x0A]"
    by (simp add: repo_line_entry)
  then have c: "?content = p @ CHR 0x0A # ?l @ [CHR 0x0A]" unfolding p by simp
  note lc = entry_line_chars[OF n u d t]
  have fl: "file_lines ?content = file_lines (p @ [CHR 0x0A]) @ [?l]"
    unfolding c by (rule file_lines_snoc[OF lc])
  let ?ls = "file_lines (p @ [CHR 0x0A])"
  have "load_repo_list m fs' = concat (map parse_repo_line (enumerate 1 (?ls @ [?l])))"
    using ex rd fl by (simp add: load_repo_list_def)
  also have "\<dots> = concat (map parse_repo_line (enumerate 1 ?ls))
                  @ parse_repo_line (1 + length ?ls, ?l)"
    by (simp add: enumerate_append_eq)
  finally have "load_repo_list m fs' = concat (map parse_repo_line (enumerate 1 ?ls))
      @ [\<lparr>repo_name = repo_name new, repo_url = repo_url new,
           repo_description = repo_description new, repo_tags = repo_tags new,
           line_number = Some (1 + length ?ls)\<rparr>]"
    by (simp only: parse_entry_line[OF n u d t h])
  then show ?thesis by simp
qed

text \<open>
  Claim C9, as amended. On a registry file that holds ASCII text (or is absent):
  \<^verbatim>\<open>add_repo\<close> returns failure and leaves the file system as it is when the registry
  already holds an entry of that name or of that URL. When it returns success for an entry
  whose name, URL and description are ASCII and hold no \<^verbatim>\<open>|\<close>, no line break and no
  whitespace at either end, whose name does not start with \<^verbatim>\<open>#\<close>, and whose tag list is not
  empty, with ASCII tags, no comma, \<^verbatim>\<open>|\<close> or line break in a tag and no whitespace at either
  end of the joined tags, then reloading the registry yields an entry with that name, URL,
  description and tag list.
\<close>

theorem add_repo_round_trip:
  "(registry_ascii m fs
      \<and> list_ex (\<lambda>repo. repo_name repo = name \<or> repo_url repo = url) (load_repo_list m fs) \<longrightarrow>
      add_repo m fs url description tags_given name fetch_metadata metadata = (False, fs))
   \<and> (registry_ascii m fs
        \<and> add_repo m fs url description (Some tags) name fetch_metadata metadata = (True, fs')
        \<and> plain name \<and> plain url \<and> plain description \<and> plain_tags tags
        \<and> \<not> startswith name ''#'' \<longrightarrow>
      (\<exists>r \<in> set (load_repo_list m fs').
         repo_name r = name \<and> repo_url r = url \<and> repo_description r = description
         \<and> repo_tags r = tags))"
proof (intro conjI impI)
  assume "registry_ascii m fs
      \<and> list_ex (\<lambda>repo. repo_name repo = name \<or> repo_url repo = url) (load_repo_list m fs)"
  then show "add_repo m fs url description tags_given name fetch_metadata metadata = (False, fs)"
    by (simp add: add_repo_def Let_def)
next
  assume a: "registry_ascii m fs
        \<and> add_repo m fs url description (Some tags) name fetch_metadata metadata = (True, fs')
        \<and> plain name \<and> plain url \<and> plain description \<and> plain_tags tags
        \<and> \<not> startswith name ''#''"
  then have ne: "tags \<noteq> []" by (simp add: plain_tags_def)
  let ?new = "\<lparr>repo_name = name, repo_url = url, repo_description = description,
               repo_tags = tags, line_number = None\<rparr>"
  from a ne have "save_repo_list m fs (load_repo_list m fs @ [?new]) = (True, fs')"
    by (auto simp: add_repo_def Let_def split: if_splits)
  from load_after_save[OF this] a
  show "\<exists>r \<in> set (load_repo_list m fs').
         repo_name r = name \<and> repo_url r = url \<and> repo_description r = description
         \<and> repo_tags r = tags"
    by simp
qed

theorem add_repo_round_trip_witness:
  "registry_ascii ex_manager ex_bar
   \<and> add_repo ex_manager ex_bar ''https://example.org/theme.git'' ''A beautiful theme''
     (Some [''hyprland'', ''eww'']) ''my-theme'' False None = (True, ex_registered)
   \<and> plain ''my-theme'' \<and> plain ''https://example.org/theme.git'' \<and> plain ''A beautiful theme''
   \<and> plain_tags [''hyprland'', ''eww''] \<and> \<not> startswith ''my-theme'' ''#''
   \<and> (\<exists>r \<in> set (load_repo_list ex_manager ex_registered).
         repo_name r = ''my-theme'' \<and> repo_url r = ''https://example.org/theme.git''
         \<and> repo_description r = ''A beautiful theme'' \<and> repo_tags r = [''hyprland'', ''eww''])
   \<and> registry_ascii ex_manager ex_registered
   \<and> list_ex (\<lambda>repo. repo_name repo = ''my-theme'' \<or> repo_url repo = ''https://example.org/other.git'')
        (load_repo_list ex_manager ex_registered)
   \<and> add_repo ex_manager ex_registered ''https://example.org/other.git'' ''Another'' None
        ''my-theme'' False None = (False, ex_registered)"
proof -
  have ra: "registry_ascii ex_manager ex_bar" by code_simp
  have a: "add_repo ex_manager ex_bar ''https://example.org/theme.git'' ''A beautiful theme''
     (Some [''hyprland'', ''eww'']) ''my-theme'' False None = (True, ex_registered)" by code_simp
  have p: "plain ''my-theme''" "plain ''https://example.org/theme.git''" "plain ''A beautiful theme''"
    "plain_tags [''hyprland'', ''eww'']" "\<not> startswith ''my-theme'' ''#''" by code_simp+
  have rb: "registry_ascii ex_manager ex_registered" by code_simp
  have d: "list_ex (\<lambda>repo. repo_name repo = ''my-theme'' \<or> repo_url repo = ''https://example.org/other.git'')
        (load_repo_list ex_manager ex_registered)" by code_simp
  from add_repo_round_trip[of ex_manager ex_bar "''my-theme''" "''https://example.org/theme.git''"
      "''A beautiful theme''" "Some [''hyprland'', ''eww'']" False None "[''hyprland'', ''eww'']" ex_registered]
    ra a p
  have r: "\<exists>r \<in> set (load_repo_list ex_manager ex_registered).
         repo_name r = ''my-theme'' \<and> repo_url r = ''https://example.org/theme.git''
         \<and> repo_description r = ''A beautiful theme'' \<and> repo_tags r = [''hyprland'', ''eww'']"
    by blast
  from add_repo_round_trip[of ex_manager ex_registered "''my-theme''" "''https://example.org/other.git''"
      "''Another''" None False None] rb d
  have j: "add_repo ex_manager ex_registered ''https://example.org/other.git'' ''Another'' None
        ''my-theme'' False None = (False, ex_registered)" by blast
  from ra a p r rb d j show ?thesis by blast
qed

text \<open>
  Claim C9 as stated covers every entry. The registry is a line of fields separated by
  \<^verbatim>\<open>|\<close>: a description \<^verbatim>\<open>a|b\<close> comes back as the description \<^verbatim>\<open>a\<close>, and the tag list as
  \<^verbatim>\<open>["b"]\<close>.
\<close>

theorem add_repo_separator_counterexample:
  "fst (add_repo ex_manager ex_bar ''u'' ''a|b'' (Some [''t'']) ''n'' False None) = True
   \<and> load_repo_list ex_manager
        (snd (add_repo ex_manager ex_bar ''u'' ''a|b'' (Some [''t'']) ''n'' False None))
       = [\<lparr>repo_name = ''n'', repo_url = ''u'', repo_description = ''a'', repo_tags = [''b''],
            line_number = Some 5\<rparr>]"
  by code_simp

text \<open>
  An entry added without tags is written with an empty last field, which
  \<^verbatim>\<open>load_repo_list\<close> reads back as the list of one empty tag.
\<close>

lemma add_repo_empty_tags_reloaded:
  "fst (add_repo ex_manager ex_bar ''u'' ''d'' None ''n'' False None) = True
   \<and> load_repo_list ex_manager (snd (add_repo ex_manager ex_bar ''u'' ''d'' None ''n'' False None))
       = [\<lparr>repo_name = ''n'', repo_url = ''u'', repo_description = ''d'', repo_tags = [''''],
            line_number = Some 5\<rparr>]"
  by code_simp

end
